theory Spec2Isabelle
  imports Main
begin

unbundle bit_operations_syntax

section \<open>The binary protocol of the DeviceHive gateway (devicehive/gateway/binary.py)\<close>

text \<open>
  Python integers are unbounded, so every number of the source is an \<open>int\<close>;
  \<open>&\<close>, \<open>|\<close>, \<open><<\<close> and \<open>>>\<close> are \<open>AND\<close>, \<open>OR\<close>, \<open>push_bit\<close> and \<open>drop_bit\<close>
  on \<open>int\<close>. A buffer is a Python list of integers. Exceptions are values of
  the type \<open>error\<close>; a function that can raise returns \<open>error + 'a\<close>.
\<close>

datatype error =
    IncompletePacketError
  | InvalidPacketLengthError
  | InvalidSignatureError
  | InvalidCRCError
  | BinarySerializationError
  | BinaryDeserializationError
  | NotImplementedError
  | NameError
  | AttributeError
  | ValueError
  | TypeError
  | OverflowError
  | AlreadyCalledError
  | StructError
  | UnicodeDecodeError

definition PACKET_SIGNATURE :: int where "PACKET_SIGNATURE = 0xc5c3"
definition PACKET_SIGNATURE_HI :: int where "PACKET_SIGNATURE_HI = 0xc5"
definition PACKET_SIGNATURE_LO :: int where "PACKET_SIGNATURE_LO = 0xc3"

definition PACKET_OFFSET_SIGN_MSB :: nat where "PACKET_OFFSET_SIGN_MSB = 0"
definition PACKET_OFFSET_SIGN_LSB :: nat where "PACKET_OFFSET_SIGN_LSB = 1"
definition PACKET_OFFSET_VERSION :: nat where "PACKET_OFFSET_VERSION = 2"
definition PACKET_OFFSET_FLAGS :: nat where "PACKET_OFFSET_FLAGS = 3"
definition PACKET_OFFSET_LEN_LSB :: nat where "PACKET_OFFSET_LEN_LSB = 4"
definition PACKET_OFFSET_LEN_MSB :: nat where "PACKET_OFFSET_LEN_MSB = 5"
definition PACKET_OFFSET_INTENT_LSB :: nat where "PACKET_OFFSET_INTENT_LSB = 6"
definition PACKET_OFFSET_INTENT_MSB :: nat where "PACKET_OFFSET_INTENT_MSB = 7"
definition PACKET_OFFSET_DATA :: nat where "PACKET_OFFSET_DATA = 8"

definition EMPTY_PACKET_LENGTH :: nat where "EMPTY_PACKET_LENGTH = 9"

lemmas packet_consts =
  PACKET_SIGNATURE_def PACKET_SIGNATURE_HI_def PACKET_SIGNATURE_LO_def
  PACKET_OFFSET_SIGN_MSB_def PACKET_OFFSET_SIGN_LSB_def PACKET_OFFSET_VERSION_def
  PACKET_OFFSET_FLAGS_def PACKET_OFFSET_LEN_LSB_def PACKET_OFFSET_LEN_MSB_def
  PACKET_OFFSET_INTENT_LSB_def PACKET_OFFSET_INTENT_MSB_def PACKET_OFFSET_DATA_def
  EMPTY_PACKET_LENGTH_def

subsection \<open>BinaryMessage\<close>

record BinaryMessage =
  signature :: int
  version :: int
  flags :: int
  intent :: int
  data :: "int list"

text \<open>\<open>length = property(fget = lambda self : len(self.data))\<close>\<close>

definition msg_length :: "BinaryMessage \<Rightarrow> int" where
  "msg_length m = int (length (data m))"

text \<open>
  \<open>bytearray(xs)\<close> of a list of integers raises \<open>ValueError\<close> unless every element
  is in \<open>range(256)\<close>.
\<close>

definition is_byte :: "int \<Rightarrow> bool" where
  "is_byte b = (0 \<le> b \<and> b < 256)"

definition bytearray :: "int list \<Rightarrow> error + int list" where
  "bytearray xs = (if list_all is_byte xs then Inr xs else Inl ValueError)"

definition checksum :: "BinaryMessage \<Rightarrow> int" where
  "checksum m =
     (let s = drop_bit 8 (signature m AND 0xff00) +
              signature m +
              version m +
              flags m +
              drop_bit 8 (msg_length m AND 0xff00) +
              msg_length m +
              drop_bit 8 (intent m AND 0xff00) +
              intent m;
          s = s + sum_list (data m)
      in (0xff - (s AND 0xff)) AND 0xff)"

definition to_binary :: "BinaryMessage \<Rightarrow> error + int list" where
  "to_binary m =
     (let len = msg_length m;
          dat = data m;
          int' = intent m
      in bytearray ([drop_bit 8 (signature m AND 0xff00) AND 0xff,
                     signature m AND 0xff,
                     version m AND 0xff,
                     flags m AND 0xff,
                     len AND 0xff, drop_bit 8 (len AND 0xff00),
                     int' AND 0xff, drop_bit 8 (int' AND 0xff00)] @ dat @ [checksum m]))"

text \<open>
  \<open>from_binary\<close> indexes only below \<open>EMPTY_PACKET_LENGTH\<close> after its length check, and
  its slices \<open>binstr[a:b]\<close> are \<open>take\<close> and \<open>drop\<close>, which truncate as Python's do.
\<close>

definition from_binary :: "int list \<Rightarrow> error + BinaryMessage" where
  "from_binary binstr =
     (let binstr_len = length binstr in
      if binstr_len < EMPTY_PACKET_LENGTH then Inl IncompletePacketError
      else
        let sig = push_bit 8 (binstr ! PACKET_OFFSET_SIGN_MSB AND 0xff) OR
                  (binstr ! PACKET_OFFSET_SIGN_LSB AND 0xff) in
        if sig \<noteq> PACKET_SIGNATURE then Inl InvalidSignatureError
        else
          let ver = binstr ! PACKET_OFFSET_VERSION;
              flg = binstr ! PACKET_OFFSET_FLAGS;
              payload_len = push_bit 8 (binstr ! PACKET_OFFSET_LEN_MSB AND 0xff) OR
                            (binstr ! PACKET_OFFSET_LEN_LSB AND 0xff) in
          if int binstr_len < int EMPTY_PACKET_LENGTH + payload_len
          then Inl InvalidPacketLengthError
          else
            let int' = push_bit 8 (binstr ! PACKET_OFFSET_INTENT_MSB AND 0xff) OR
                       (binstr ! PACKET_OFFSET_INTENT_LSB AND 0xff) in
            case bytearray (take (nat payload_len) (drop PACKET_OFFSET_DATA binstr)) of
              Inl e \<Rightarrow> Inl e
            | Inr frame_data \<Rightarrow>
                if 0xff \<noteq> (sum_list (take (PACKET_OFFSET_DATA + nat payload_len + 1) binstr)
                              AND 0xff)
                then Inl InvalidCRCError
                else Inr \<lparr>signature = sig, version = ver, flags = flg,
                          intent = int', data = frame_data\<rparr>)"

subsection \<open>BinaryPacketBuffer\<close>

text \<open>\<open>list.index(x)\<close>: the first position holding \<open>x\<close>, or \<open>ValueError\<close> (here \<open>None\<close>).\<close>

fun list_index :: "int list \<Rightarrow> int \<Rightarrow> nat option" where
  "list_index [] x = None"
| "list_index (y # ys) x =
     (if y = x then Some 0
      else case list_index ys x of None \<Rightarrow> None | Some i \<Rightarrow> Some (Suc i))"

text \<open>
  The buffer object is its list \<open>_data\<close>; \<open>_skip_to_next_packet\<close> takes the list and
  returns the list left in the buffer. \<open>del self._data[:k]\<close> is \<open>drop k\<close>. The branch
  \<open>elif idx < data_len - 2\<close> has no \<open>else\<close>: for \<open>idx = data_len - 2\<close> the source
  does nothing. Both subtractions happen under \<open>data_len > 1\<close>, where the natural
  numbers agree with Python's integers.
\<close>

function skip_to_next_packet :: "int list \<Rightarrow> int list" where
  "skip_to_next_packet d =
     (let data_len = length d in
      if data_len > 1 then
        if d ! 0 = PACKET_SIGNATURE_HI \<and> d ! 1 = PACKET_SIGNATURE_LO then d
        else
          case list_index d PACKET_SIGNATURE_HI of
            None \<Rightarrow> []
          | Some idx \<Rightarrow>
              if idx = data_len - 1 then drop idx d
              else if idx < data_len - 2 then
                if d ! (idx + 1) = PACKET_SIGNATURE_LO then drop idx d
                else skip_to_next_packet (drop (idx + 1) d)
              else d
      else if data_len = 1 \<and> d ! 0 \<noteq> PACKET_SIGNATURE_HI then []
      else d)"
  by pat_completeness auto
termination
  by (relation "measure length") auto

declare skip_to_next_packet.simps [simp del]

definition append_buf :: "int list \<Rightarrow> int list \<Rightarrow> int list" where
  "append_buf d v = skip_to_next_packet (d @ v)"

definition has_packet :: "int list \<Rightarrow> bool" where
  "has_packet d =
     (let data_len = length d in
      if data_len < EMPTY_PACKET_LENGTH then False
      else
        let payload_len = (push_bit 8 (d ! PACKET_OFFSET_LEN_MSB) AND 0xff00) OR
                          (d ! PACKET_OFFSET_LEN_LSB AND 0xff) in
        if int data_len < payload_len + int EMPTY_PACKET_LENGTH then False
        else True)"

definition clear :: "int list \<Rightarrow> int list" where
  "clear d = []"

text \<open>
  \<open>pop_packet\<close> returns what the call returns or raises, paired with the list the
  buffer holds afterwards. \<open>from_binary\<close> runs before the \<open>del\<close>, so when it raises
  the buffer is the one the call found.
\<close>

definition pop_packet :: "int list \<Rightarrow> (error + BinaryMessage option) \<times> int list" where
  "pop_packet d =
     (if \<not> has_packet d then (Inr None, d)
      else
        case from_binary d of
          Inl e \<Rightarrow> (Inl e, d)
        | Inr msg \<Rightarrow>
            (Inr (Some msg),
             skip_to_next_packet
               (drop (PACKET_OFFSET_DATA + 1 +
                      nat ((push_bit 8 (d ! PACKET_OFFSET_LEN_MSB) AND 0xff00) OR
                           (d ! PACKET_OFFSET_LEN_LSB AND 0xff))) d)))"

text \<open>
  The receiving loop of \<open>BinaryProtocol.dataReceived\<close>:
  \<^verbatim>\<open>while buffer.has_packet(): packet_received(buffer.pop_packet())\<close>.
  \<open>pop_all\<close> returns the packets handed on, in order, and the buffer left; an exception
  of \<open>pop_packet\<close> ends the loop. \<open>pop_packet\<close> returns \<open>None\<close> only when \<open>has_packet\<close>
  is false, which the loop condition excludes; the model gives that branch the
  \<open>AttributeError\<close> that \<open>packet.intent\<close> would raise on \<open>None\<close>. The loop ends because
  every successful \<open>pop_packet\<close> shortens the buffer.
\<close>

lemma skip_to_next_packet_length: "length (skip_to_next_packet d) \<le> length d"
proof (induction d rule: skip_to_next_packet.induct)
  case (1 d)
  show ?case
  proof (cases "1 < length d \<and> \<not> (d ! 0 = PACKET_SIGNATURE_HI \<and> d ! 1 = PACKET_SIGNATURE_LO)")
    case False
    then show ?thesis
      by (subst skip_to_next_packet.simps) (auto simp: Let_def)
  next
    case True
    show ?thesis
    proof (cases "list_index d PACKET_SIGNATURE_HI")
      case None
      with True show ?thesis
        by (subst skip_to_next_packet.simps) (simp add: Let_def)
    next
      case (Some idx)
      show ?thesis
      proof (cases "idx \<noteq> length d - 1 \<and> idx < length d - 2 \<and>
                    d ! (idx + 1) \<noteq> PACKET_SIGNATURE_LO")
        case False
        with True Some show ?thesis
          by (subst skip_to_next_packet.simps) (auto simp: Let_def)
      next
        case rec: True
        have "length (skip_to_next_packet (drop (idx + 1) d)) \<le> length (drop (idx + 1) d)"
          using "1.IH"[OF refl _ _ Some] True rec by simp
        with True Some rec show ?thesis
          by (subst skip_to_next_packet.simps) (simp add: Let_def)
      qed
    qed
  qed
qed

lemma pop_packet_shrinks:
  assumes "has_packet d" and "pop_packet d = (Inr (Some m), y)"
  shows "length y < length d"
proof -
  let ?k = "PACKET_OFFSET_DATA + 1 +
            nat ((push_bit 8 (d ! PACKET_OFFSET_LEN_MSB) AND 0xff00) OR
                 (d ! PACKET_OFFSET_LEN_LSB AND 0xff))"
  have len: "9 \<le> length d"
    using assms(1) by (auto simp: has_packet_def Let_def packet_consts split: if_splits)
  have "y = skip_to_next_packet (drop ?k d)"
    using assms by (auto simp: pop_packet_def split: if_splits sum.splits)
  then have "length y \<le> length (drop ?k d)"
    by (simp only: skip_to_next_packet_length)
  also have "\<dots> \<le> length d - 9" by (simp add: packet_consts)
  finally show ?thesis using len by simp
qed

function pop_all :: "int list \<Rightarrow> error + (BinaryMessage list \<times> int list)" where
  "pop_all d =
     (if has_packet d then
        (case pop_packet d of
           (Inl e, d') \<Rightarrow> Inl e
         | (Inr None, d') \<Rightarrow> Inl AttributeError
         | (Inr (Some msg), d') \<Rightarrow>
             (case pop_all d' of
                Inl e \<Rightarrow> Inl e
              | Inr (msgs, d'') \<Rightarrow> Inr (msg # msgs, d'')))
      else Inr ([], d))"
  by pat_completeness auto
termination pop_all
proof (relation "measure length")
  show "wf (measure length)" by simp
next
  fix d :: "int list" and x y b x2
  assume "has_packet d" "(x, y) = pop_packet d" "x = Inr b" "b = Some x2"
  then have "length y < length d"
    using pop_packet_shrinks[of d x2 y] by simp
  then show "(y, d) \<in> measure length" by simp
qed

declare pop_all.simps [simp del]

text \<open>
  A stream delivered in chunks: each chunk is appended and every packet then available
  is popped, as \<open>dataReceived\<close> does for each chunk the transport delivers.
\<close>

fun feed :: "int list \<Rightarrow> int list list \<Rightarrow> error + (BinaryMessage list \<times> int list)" where
  "feed d [] = Inr ([], d)"
| "feed d (c # cs) =
     (case pop_all (append_buf d c) of
        Inl e \<Rightarrow> Inl e
      | Inr (msgs, d') \<Rightarrow>
          (case feed d' cs of
             Inl e \<Rightarrow> Inl e
           | Inr (msgs', d'') \<Rightarrow> Inr (msgs @ msgs', d'')))"

text \<open>The number of bytes the \<open>del\<close> of \<open>pop_packet\<close> removes from the front.\<close>

definition frame_length :: "int list \<Rightarrow> nat" where
  "frame_length d =
     PACKET_OFFSET_DATA + 1 +
     nat ((push_bit 8 (d ! PACKET_OFFSET_LEN_MSB) AND 0xff00) OR
          (d ! PACKET_OFFSET_LEN_LSB AND 0xff))"

subsection \<open>Predicates of the specification\<close>

text \<open>
  The buffer invariant of the data model: an empty buffer, a lone \<open>0xC5\<close>, or a buffer
  that starts with the signature \<open>0xC5 0xC3\<close>.
\<close>

fun buffer_invariant :: "int list \<Rightarrow> bool" where
  "buffer_invariant [] = True"
| "buffer_invariant [a] = (a = PACKET_SIGNATURE_HI)"
| "buffer_invariant (a # b # r) = (a = PACKET_SIGNATURE_HI \<and> b = PACKET_SIGNATURE_LO)"

text \<open>
  A frame as the specification has it: the signature \<open>0xC5C3\<close>, version and flags of
  8 bits, an intent of 16 bits and at most 65535 payload bytes.
\<close>

definition valid_frame :: "BinaryMessage \<Rightarrow> bool" where
  "valid_frame m =
     (signature m = PACKET_SIGNATURE \<and> is_byte (version m) \<and> is_byte (flags m) \<and>
      0 \<le> intent m \<and> intent m \<le> 65535 \<and> length (data m) \<le> 65535 \<and>
      list_all is_byte (data m))"

text \<open>The eight header bytes \<open>to_binary\<close> writes in front of the payload.\<close>

definition header :: "BinaryMessage \<Rightarrow> int list" where
  "header m = [drop_bit 8 (signature m AND 0xff00) AND 0xff,
               signature m AND 0xff,
               version m AND 0xff,
               flags m AND 0xff,
               msg_length m AND 0xff, drop_bit 8 (msg_length m AND 0xff00),
               intent m AND 0xff, drop_bit 8 (intent m AND 0xff00)]"

text \<open>The sum \<open>s\<close> that the \<open>checksum\<close> property computes before it complements it.\<close>

definition checksum_base :: "BinaryMessage \<Rightarrow> int" where
  "checksum_base m =
     drop_bit 8 (signature m AND 0xff00) + signature m + version m + flags m +
     drop_bit 8 (msg_length m AND 0xff00) + msg_length m +
     drop_bit 8 (intent m AND 0xff00) + intent m + sum_list (data m)"

text \<open>The bytes \<open>to_binary\<close> returns for a frame whose payload is a byte sequence.\<close>

definition frame_bytes :: "BinaryMessage \<Rightarrow> int list" where
  "frame_bytes m = header m @ data m @ [checksum m]"

text \<open>A buffer that holds the beginning of a frame, but not all of it.\<close>

definition partial_frame :: "int list \<Rightarrow> bool" where
  "partial_frame p \<longleftrightarrow>
     p = [] \<or>
     (\<exists>m k. valid_frame m \<and> k < length (frame_bytes m) \<and> p = take k (frame_bytes m))"

text \<open>The payload length as \<open>from_binary\<close> reads it from offsets 4 and 5.\<close>

definition len_field :: "int list \<Rightarrow> int" where
  "len_field d = push_bit 8 (d ! 5 AND 0xff) OR (d ! 4 AND 0xff)"

section \<open>The binary formatter and the registration of commands\<close>

text \<open>
  A Python value is a \<open>pyval\<close>. An object that has a \<open>__binary_struct__\<close> is the list of
  its properties, each with the value its getter returns; a property is a
  \<open>binary_property\<close> of a type, an \<open>array_binary_property\<close> of an element class, or some
  other attribute. A class is represented by the instance its constructor creates. A
  float is not looked into. What \<open>struct\<close> does with a float and whether a byte string
  is valid UTF-8 are left to a record \<open>pylib\<close> of library functions that every function
  of the formatter takes as its first argument.
\<close>

datatype DataTypes =
    Null | Byte | Word | Dword | Qword
  | SignedByte | SignedWord | SignedDword | SignedQword
  | Single | Double | Boolean | Guid | String | Binary | Array

datatype pyval =
    PyNone
  | PyInt int
  | PyBool bool
  | PyFloat int
  | PyStr "int list"
  | PyUnicode "int list"
  | PyByteArray "int list"
  | PyArray "int list"
  | PyUUID int
  | PyList "pyval list"
  | PyObject "(AbstractBinaryProperty \<times> pyval) list"
and AbstractBinaryProperty =
    binary_property DataTypes
  | array_binary_property pyval
  | plain_attribute

record pylib =
  pack_float :: "DataTypes \<Rightarrow> pyval \<Rightarrow> error + int list"
  unpack_float :: "DataTypes \<Rightarrow> int list \<Rightarrow> pyval"
  utf8_valid :: "int list \<Rightarrow> bool"

datatype packfmt = fmt_B | fmt_H | fmt_I | fmt_Q | fmt_b | fmt_h | fmt_i | fmt_q
  | fmt_f | fmt_d | fmt_bool

fun basic_type_map :: "DataTypes \<Rightarrow> (packfmt \<times> nat) option" where
  "basic_type_map Byte = Some (fmt_B, 1)"
| "basic_type_map Word = Some (fmt_H, 2)"
| "basic_type_map Dword = Some (fmt_I, 4)"
| "basic_type_map Qword = Some (fmt_Q, 8)"
| "basic_type_map SignedByte = Some (fmt_b, 1)"
| "basic_type_map SignedWord = Some (fmt_h, 2)"
| "basic_type_map SignedDword = Some (fmt_i, 4)"
| "basic_type_map SignedQword = Some (fmt_q, 8)"
| "basic_type_map Single = Some (fmt_f, 4)"
| "basic_type_map Double = Some (fmt_d, 8)"
| "basic_type_map Boolean = Some (fmt_bool, 1)"
| "basic_type_map _ = None"


subsection \<open>struct, array and uuid of the standard library\<close>

fun le_bytes :: "nat \<Rightarrow> int \<Rightarrow> int list" where
  "le_bytes 0 x = []"
| "le_bytes (Suc n) x = (x mod 256) # le_bytes n (x div 256)"

fun le_int :: "int list \<Rightarrow> int" where
  "le_int [] = 0"
| "le_int (b # bs) = b + 256 * le_int bs"

fun calcsize :: "packfmt \<Rightarrow> nat" where
  "calcsize fmt_B = 1" | "calcsize fmt_H = 2" | "calcsize fmt_I = 4" | "calcsize fmt_Q = 8"
| "calcsize fmt_b = 1" | "calcsize fmt_h = 2" | "calcsize fmt_i = 4" | "calcsize fmt_q = 8"
| "calcsize fmt_f = 4" | "calcsize fmt_d = 8" | "calcsize fmt_bool = 1"

fun fmt_signed :: "packfmt \<Rightarrow> bool" where
  "fmt_signed fmt_b = True" | "fmt_signed fmt_h = True"
| "fmt_signed fmt_i = True" | "fmt_signed fmt_q = True"
| "fmt_signed _ = False"

fun truth :: "pyval \<Rightarrow> bool" where
  "truth PyNone = False"
| "truth (PyInt n) = (n \<noteq> 0)"
| "truth (PyBool b) = b"
| "truth (PyFloat x) = (x \<noteq> 0 \<and> x \<noteq> 2 ^ 63)"
| "truth (PyStr bs) = (bs \<noteq> [])"
| "truth (PyUnicode bs) = (bs \<noteq> [])"
| "truth (PyByteArray bs) = (bs \<noteq> [])"
| "truth (PyArray bs) = (bs \<noteq> [])"
| "truth (PyUUID n) = True"
| "truth (PyList xs) = (xs \<noteq> [])"
| "truth (PyObject fs) = True"

definition int_fits :: "packfmt \<Rightarrow> int \<Rightarrow> bool" where
  "int_fits fmt n =
     (if fmt_signed fmt
      then - (2 ^ (8 * calcsize fmt - 1)) \<le> n \<and> n < 2 ^ (8 * calcsize fmt - 1)
      else 0 \<le> n \<and> n < 2 ^ (8 * calcsize fmt))"

definition pack_int :: "packfmt \<Rightarrow> int \<Rightarrow> error + int list" where
  "pack_int fmt n =
     (if int_fits fmt n then Inr (le_bytes (calcsize fmt) n) else Inl StructError)"

definition struct_pack :: "pylib \<Rightarrow> packfmt \<Rightarrow> pyval \<Rightarrow> error + int list" where
  "struct_pack L fmt v =
     (if fmt = fmt_bool then Inr [if truth v then 1 else 0]
      else if fmt = fmt_f then pack_float L Single v
      else if fmt = fmt_d then pack_float L Double v
      else
        case v of
          PyInt n \<Rightarrow> pack_int fmt n
        | PyBool b \<Rightarrow> pack_int fmt (if b then 1 else 0)
        | _ \<Rightarrow> Inl StructError)"

definition unpack_int :: "packfmt \<Rightarrow> int list \<Rightarrow> int" where
  "unpack_int fmt bs =
     (let n = le_int bs; bits = 8 * calcsize fmt
      in if fmt_signed fmt \<and> 2 ^ (bits - 1) \<le> n then n - 2 ^ bits else n)"

definition struct_unpack_from :: "pylib \<Rightarrow> packfmt \<Rightarrow> int list \<Rightarrow> nat \<Rightarrow> error + pyval" where
  "struct_unpack_from L fmt buf offset =
     (if length buf < offset + calcsize fmt then Inl StructError
      else
        let bs = take (calcsize fmt) (drop offset buf)
        in Inr (if fmt = fmt_bool then PyBool (bs \<noteq> [0])
                else if fmt = fmt_f then unpack_float L Single bs
                else if fmt = fmt_d then unpack_float L Double bs
                else PyInt (unpack_int fmt bs)))"

text \<open>\<open>struct.unpack_from('B' * 16, data, offset)\<close>\<close>

definition unpack_16B :: "int list \<Rightarrow> nat \<Rightarrow> error + int list" where
  "unpack_16B buf offset =
     (if length buf < offset + 16 then Inl StructError else Inr (take 16 (drop offset buf)))"

text \<open>
  \<open>bytearray.extend(v)\<close>: a \<open>str\<close> or an \<open>array('B')\<close> gives its bytes; the items of a list
  must be integers in \<open>range(256)\<close> (\<open>ValueError\<close> otherwise) or strings of one byte.
\<close>

fun extend_item :: "pyval \<Rightarrow> error + int" where
  "extend_item (PyInt n) = (if is_byte n then Inr n else Inl ValueError)"
| "extend_item (PyBool b) = Inr (if b then 1 else 0)"
| "extend_item (PyStr [b]) = Inr b"
| "extend_item v = Inl TypeError"

fun extend_items :: "pyval list \<Rightarrow> error + int list" where
  "extend_items [] = Inr []"
| "extend_items (v # vs) =
     (case extend_item v of
        Inl e \<Rightarrow> Inl e
      | Inr b \<Rightarrow> (case extend_items vs of Inl e \<Rightarrow> Inl e | Inr bs \<Rightarrow> Inr (b # bs)))"

fun bytearray_extend :: "pyval \<Rightarrow> error + int list" where
  "bytearray_extend (PyStr bs) = Inr bs"
| "bytearray_extend (PyByteArray bs) = Inr bs"
| "bytearray_extend (PyArray bs) = Inr bs"
| "bytearray_extend (PyList vs) = extend_items vs"
| "bytearray_extend v = Inl TypeError"

text \<open>
  \<open>array.array('B', v)\<close>: a \<open>str\<close> or an \<open>array('B')\<close> gives its bytes; the items of a list
  must be integers, in range (\<open>OverflowError\<close> otherwise).
\<close>

fun array_item :: "pyval \<Rightarrow> error + int" where
  "array_item (PyInt n) = (if is_byte n then Inr n else Inl OverflowError)"
| "array_item (PyBool b) = Inr (if b then 1 else 0)"
| "array_item v = Inl TypeError"

fun array_items :: "pyval list \<Rightarrow> error + int list" where
  "array_items [] = Inr []"
| "array_items (v # vs) =
     (case array_item v of
        Inl e \<Rightarrow> Inl e
      | Inr b \<Rightarrow> (case array_items vs of Inl e \<Rightarrow> Inl e | Inr bs \<Rightarrow> Inr (b # bs)))"

fun array_B :: "pyval \<Rightarrow> error + int list" where
  "array_B (PyStr bs) = Inr bs"
| "array_B (PyByteArray bs) = Inr bs"
| "array_B (PyArray bs) = Inr bs"
| "array_B (PyList vs) = array_items vs"
| "array_B v = Inl TypeError"

text \<open>
  \<open>len(v)\<close>. A unicode string is represented by its UTF-8 bytes; its length is the
  number of code points, the bytes that are not continuation bytes.
\<close>

fun py_len :: "pyval \<Rightarrow> error + nat" where
  "py_len (PyStr bs) = Inr (length bs)"
| "py_len (PyUnicode bs) = Inr (length (filter (\<lambda>b. \<not> (0x80 \<le> b \<and> b < 0xc0)) bs))"
| "py_len (PyByteArray bs) = Inr (length bs)"
| "py_len (PyArray bs) = Inr (length bs)"
| "py_len (PyList vs) = Inr (length vs)"
| "py_len v = Inl TypeError"

text \<open>
  \<open>uuid.UUID(fields = ...)\<close> checks the six fields against their widths and joins them
  into the 128-bit integer the object holds; \<open>UUID.bytes\<close> lists that integer's sixteen
  bytes, the most significant first.
\<close>

definition UUID_of_fields :: "int \<times> int \<times> int \<times> int \<times> int \<times> int \<Rightarrow> error + pyval" where
  "UUID_of_fields flds =
     (case flds of
        (time_low, time_mid, time_hi_version, clock_seq_hi_variant, clock_seq_low, node) \<Rightarrow>
          if \<not> (0 \<le> time_low \<and> time_low < push_bit 32 1) then Inl ValueError
          else if \<not> (0 \<le> time_mid \<and> time_mid < push_bit 16 1) then Inl ValueError
          else if \<not> (0 \<le> time_hi_version \<and> time_hi_version < push_bit 16 1) then Inl ValueError
          else if \<not> (0 \<le> clock_seq_hi_variant \<and> clock_seq_hi_variant < push_bit 8 1)
               then Inl ValueError
          else if \<not> (0 \<le> clock_seq_low \<and> clock_seq_low < push_bit 8 1) then Inl ValueError
          else if \<not> (0 \<le> node \<and> node < push_bit 48 1) then Inl ValueError
          else
            let clock_seq = push_bit 8 clock_seq_hi_variant OR clock_seq_low
            in Inr (PyUUID ((((push_bit 96 time_low OR push_bit 80 time_mid) OR
                              push_bit 64 time_hi_version) OR push_bit 48 clock_seq) OR node)))"

definition UUID_bytes :: "int \<Rightarrow> int list" where
  "UUID_bytes n = map (\<lambda>i. drop_bit (8 * i) n AND 0xff) (rev [0..<16])"

subsection \<open>The exceptions of BinaryFormatter\<close>

text \<open>
  The names the module binds at its top level. \<open>BinaryFormatterError.__init__\<close> calls
  \<open>super(BinarySerializerError, self).__init__(msg)\<close>; the module binds no name
  \<open>BinarySerializerError\<close>, so constructing a \<open>BinaryFormatterError\<close> or one of its two
  subclasses, whose constructors call it, ends in \<open>NameError\<close>. A \<open>raise\<close> evaluates
  the constructor first, so that is the exception that leaves the function.
\<close>

definition module_names :: "string list" where
  "module_names =
     [''unittest'', ''struct'', ''array'', ''uuid'', ''Interface'', ''implements'',
      ''Attribute'', ''interfaces'', ''defer'', ''twisted'', ''ServerFactory'', ''Protocol'',
      ''Values'', ''ValueConstant'',
      ''BinaryMessageError'', ''IncompletePacketError'', ''InvalidPacketLengthError'',
      ''InvalidSignatureError'', ''InvalidCRCError'', ''SystemIntents'',
      ''PACKET_SIGNATURE'', ''PACKET_SIGNATURE_HI'', ''PACKET_SIGNATURE_LO'',
      ''PACKET_OFFSET_SIGN_MSB'', ''PACKET_OFFSET_SIGN_LSB'', ''PACKET_OFFSET_VERSION'',
      ''PACKET_OFFSET_FLAGS'', ''PACKET_OFFSET_LEN_LSB'', ''PACKET_OFFSET_LEN_MSB'',
      ''PACKET_OFFSET_INTENT_LSB'', ''PACKET_OFFSET_INTENT_MSB'', ''PACKET_OFFSET_DATA'',
      ''EMPTY_PACKET_LENGTH'', ''DataTypes'', ''AbstractBinaryMessage'', ''BinaryMessage'',
      ''RegistrationRequest'', ''BinaryPacketBuffer'', ''AbstractBinaryProperty'',
      ''binary_property'', ''array_binary_property'', ''BinaryFormatterError'',
      ''BinarySerializationError'', ''BinaryDeserializationError'', ''BinaryFormatter'',
      ''define_accessors'', ''Parameters'', ''Equipment'', ''Notification'', ''Command'',
      ''DeviceRegistration'', ''BinaryProtocol'', ''AutoClassFactory'',
      ''autoclass_update_properties'', ''BinaryFactory'', ''SerialPortAddress'',
      ''SerialPortEndpoint'', ''TestBinaryMessage'', ''BinaryPacketBufferTest'',
      ''_SubObject'', ''_TestObject'', ''BinaryFormatterTest'', ''AutoClassFactoryTest'']"

definition BinaryFormatterError_init :: "error \<Rightarrow> error" where
  "BinaryFormatterError_init self =
     (if ''BinarySerializerError'' \<in> set module_names then self else NameError)"

definition new_BinarySerializationError :: error where
  "new_BinarySerializationError = BinaryFormatterError_init BinarySerializationError"

definition new_BinaryDeserializationError :: error where
  "new_BinaryDeserializationError = BinaryFormatterError_init BinaryDeserializationError"

text \<open>\<open>raise BinarySerializerError(...)\<close>, as \<open>deserialize\<close> writes it: the name is looked up.\<close>

definition new_BinarySerializerError :: error where
  "new_BinarySerializerError =
     (if ''BinarySerializerError'' \<in> set module_names then BinaryDeserializationError
      else NameError)"


subsection \<open>BinaryFormatter\<close>

text \<open>\<open>struct.unpack_from('<H', data, offset)[0]\<close>\<close>

definition unpack_H :: "int list \<Rightarrow> nat \<Rightarrow> error + nat" where
  "unpack_H buf offset =
     (if length buf < offset + 2 then Inl StructError
      else Inr (nat (unpack_int fmt_H (take 2 (drop offset buf)))))"

definition serialize_scalar :: "pylib \<Rightarrow> DataTypes \<Rightarrow> pyval \<Rightarrow> error + int list" where
  "serialize_scalar L t v =
     (if t = Null then Inr []
      else
        case basic_type_map t of
          Some (packstr, datalen) \<Rightarrow> struct_pack L packstr v
        | None \<Rightarrow>
            if t = Guid then
              (case v of
                 PyUUID n \<Rightarrow> Inr (UUID_bytes n)
               | _ \<Rightarrow>
                   (case py_len v of
                      Inl e \<Rightarrow> Inl e
                    | Inr n \<Rightarrow>
                        if n \<noteq> 16 then Inl new_BinarySerializationError
                        else bytearray_extend v))
            else if t = String then
              (case array_B v of
                 Inl e \<Rightarrow> Inl e
               | Inr bstr \<Rightarrow>
                   (case struct_pack L fmt_H (PyInt (int (length bstr))) of
                      Inl e \<Rightarrow> Inl e
                    | Inr len \<Rightarrow> Inr (len @ bstr)))
            else if t = Binary then
              (case py_len v of
                 Inl e \<Rightarrow> Inl e
               | Inr str_len \<Rightarrow>
                   (case struct_pack L fmt_H (PyInt (int str_len)) of
                      Inl e \<Rightarrow> Inl e
                    | Inr len \<Rightarrow>
                        (case bytearray_extend v of
                           Inl e \<Rightarrow> Inl e
                         | Inr bs \<Rightarrow> Inr (len @ bs))))
            else if new_BinarySerializationError = NameError then Inl NameError
            else Inr [])"

fun serialize :: "pylib \<Rightarrow> pyval \<Rightarrow> error + int list"
  and serialize_elements :: "pylib \<Rightarrow> pyval list \<Rightarrow> error + int list"
  and serialize_struct :: "pylib \<Rightarrow> (AbstractBinaryProperty \<times> pyval) list \<Rightarrow> error + int list"
where
  "serialize L (PyList xs) =
     (case struct_pack L fmt_H (PyInt (int (length xs))) of
        Inl e \<Rightarrow> Inl e
      | Inr len \<Rightarrow>
          (case serialize_elements L xs of
             Inl e \<Rightarrow> Inl e
           | Inr bs \<Rightarrow> Inr (len @ bs)))"
| "serialize L (PyObject fs) = serialize_struct L fs"
| "serialize L v = Inl new_BinarySerializationError"
| "serialize_elements L [] = Inr []"
| "serialize_elements L (x # xs) =
     (case serialize L x of
        Inl e \<Rightarrow> Inl e
      | Inr bs \<Rightarrow>
          (case serialize_elements L xs of
             Inl e \<Rightarrow> Inl e
           | Inr bs' \<Rightarrow> Inr (bs @ bs')))"
| "serialize_struct L [] = Inr []"
| "serialize_struct L ((p, v) # fs) =
     (case (case p of
              plain_attribute \<Rightarrow> Inl new_BinarySerializationError
            | array_binary_property element_type \<Rightarrow> serialize L v
            | binary_property t \<Rightarrow>
                if t = Array then serialize L v else serialize_scalar L t v) of
        Inl e \<Rightarrow> Inl e
      | Inr bs \<Rightarrow>
          (case serialize_struct L fs of
             Inl e \<Rightarrow> Inl e
           | Inr bs' \<Rightarrow> Inr (bs @ bs')))"

text \<open>
  The tuple \<open>fields\<close> that \<open>_deserialize\<close> computes from the sixteen values it unpacked
  for a Guid; Python's \<open>|\<close> associates to the left.
\<close>

definition guid_fields :: "int list \<Rightarrow> int \<times> int \<times> int \<times> int \<times> int \<times> int" where
  "guid_fields v =
     (((push_bit 24 (v ! 0) OR push_bit 16 (v ! 1)) OR push_bit 8 (v ! 2)) OR v ! 3,
      push_bit 8 (v ! 4) OR v ! 5,
      push_bit 8 (v ! 6) OR v ! 7,
      v ! 8,
      v ! 9,
      ((((push_bit 40 (v ! 10) OR push_bit 32 (v ! 11)) OR push_bit 24 (v ! 12)) OR
        push_bit 16 (v ! 13)) OR push_bit 8 (v ! 14)) OR v ! 15)"

definition deserialize_scalar ::
  "pylib \<Rightarrow> int list \<Rightarrow> DataTypes \<Rightarrow> pyval \<Rightarrow> nat \<Rightarrow> error + (pyval \<times> nat)" where
  "deserialize_scalar L buf t dflt offset =
     (if t = Null then Inr (dflt, offset)
      else
        case basic_type_map t of
          Some (packstr, datalen) \<Rightarrow>
            (case struct_unpack_from L packstr buf offset of
               Inl e \<Rightarrow> Inl e
             | Inr v \<Rightarrow> Inr (v, offset + datalen))
        | None \<Rightarrow>
            if t = Guid then
              (case unpack_16B buf offset of
                 Inl e \<Rightarrow> Inl e
               | Inr v \<Rightarrow>
                   (case UUID_of_fields (guid_fields v) of
                      Inl e \<Rightarrow> Inl e
                    | Inr u \<Rightarrow> Inr (u, offset + 16)))
            else if t = String then
              (case unpack_H buf offset of
                 Inl e \<Rightarrow> Inl e
               | Inr strlen \<Rightarrow>
                   let offset = offset + 2;
                       bstr = take strlen (drop offset buf);
                       offset = offset + strlen
                   in if utf8_valid L bstr then Inr (PyUnicode bstr, offset)
                      else Inl UnicodeDecodeError)
            else if t = Binary then
              (case unpack_H buf offset of
                 Inl e \<Rightarrow> Inl e
               | Inr binlen \<Rightarrow>
                   let offset = offset + 2;
                       bin = take binlen (drop offset buf);
                       offset = offset + binlen
                   in Inr (PyArray bin, offset))
            else Inl new_BinarySerializerError)"

fun deserialize_object :: "pylib \<Rightarrow> int list \<Rightarrow> pyval \<Rightarrow> nat \<Rightarrow> error + (pyval \<times> nat)"
  and deserialize_props ::
    "pylib \<Rightarrow> int list \<Rightarrow> (AbstractBinaryProperty \<times> pyval) list \<Rightarrow> nat \<Rightarrow>
     error + ((AbstractBinaryProperty \<times> pyval) list \<times> nat)"
  and deserialize_elements ::
    "pylib \<Rightarrow> int list \<Rightarrow> pyval \<Rightarrow> nat \<Rightarrow> nat \<Rightarrow> error + (pyval list \<times> nat)"
where
  "deserialize_object L buf (PyObject fs) offset =
     (case deserialize_props L buf fs offset of
        Inl e \<Rightarrow> Inl e
      | Inr (fs', offset') \<Rightarrow> Inr (PyObject fs', offset'))"
| "deserialize_object L buf t offset = Inl new_BinarySerializerError"
| "deserialize_props L buf [] offset = Inr ([], offset)"
| "deserialize_props L buf ((p, dflt) # fs) offset =
     (case (case p of
              plain_attribute \<Rightarrow> Inl AttributeError
            | array_binary_property element_type \<Rightarrow>
                (case unpack_H buf offset of
                   Inl e \<Rightarrow> Inl e
                 | Inr arrlen \<Rightarrow>
                     (case deserialize_elements L buf element_type arrlen (offset + 2) of
                        Inl e \<Rightarrow> Inl e
                      | Inr (vs, offset') \<Rightarrow> Inr (PyList vs, offset')))
            | binary_property t \<Rightarrow>
                if t = Array then Inl new_BinarySerializerError
                else deserialize_scalar L buf t dflt offset) of
        Inl e \<Rightarrow> Inl e
      | Inr (v, offset') \<Rightarrow>
          (case deserialize_props L buf fs offset' of
             Inl e \<Rightarrow> Inl e
           | Inr (fs', offset'') \<Rightarrow> Inr ((p, v) # fs', offset'')))"
| "deserialize_elements L buf element_type 0 offset = Inr ([], offset)"
| "deserialize_elements L buf element_type (Suc n) offset =
     (case deserialize_object L buf element_type offset of
        Inl e \<Rightarrow> Inl e
      | Inr (subobj, offset') \<Rightarrow>
          (case deserialize_elements L buf element_type n offset' of
             Inl e \<Rightarrow> Inl e
           | Inr (vs, offset'') \<Rightarrow> Inr (subobj # vs, offset'')))"



subsection \<open>Conformant values and what the decoder returns for them\<close>

text \<open>
  A class is represented by the instance \<open>type()\<close> creates, an object with a
  \<open>__binary_struct__\<close> by the list of its properties, each with the value its getter
  returns. A value conforms to a class when it has the class's properties and each
  holds a value of its wire type: an integer in the range of an integer type, a \<open>bool\<close>
  for Boolean, a \<open>uuid.UUID\<close> or a string of 16 bytes for Guid, a UTF-8 byte string of at
  most 65535 bytes for String, at most 65535 bytes for Binary, a list of at most 65535
  conformant objects for an array property. A Null property is neither written nor
  read, so its value is the one the constructor gave. For Single and Double the value
  must be one that \<open>struct\<close> packs into 4 or 8 bytes and unpacks to itself.
\<close>

definition float_round_trips :: "pylib \<Rightarrow> DataTypes \<Rightarrow> pyval \<Rightarrow> bool" where
  "float_round_trips L t v =
     (case pack_float L t v of
        Inl e \<Rightarrow> False
      | Inr bs \<Rightarrow>
          length bs = (if t = Single then 4 else 8) \<and> list_all is_byte bs \<and>
          unpack_float L t bs = v)"

definition conforms_scalar :: "pylib \<Rightarrow> DataTypes \<Rightarrow> pyval \<Rightarrow> pyval \<Rightarrow> bool" where
  "conforms_scalar L t dflt v =
     (if t = Null then v = dflt
      else if t = Boolean then (case v of PyBool b \<Rightarrow> True | _ \<Rightarrow> False)
      else if t = Single \<or> t = Double then float_round_trips L t v
      else if t = Guid then
        (case v of
           PyUUID n \<Rightarrow> 0 \<le> n \<and> n < 2 ^ 128
         | PyStr bs \<Rightarrow> length bs = 16 \<and> list_all is_byte bs
         | _ \<Rightarrow> False)
      else if t = String then
        (case v of
           PyStr bs \<Rightarrow> length bs \<le> 65535 \<and> list_all is_byte bs \<and> utf8_valid L bs
         | _ \<Rightarrow> False)
      else if t = Binary then
        (case v of
           PyStr bs \<Rightarrow> length bs \<le> 65535 \<and> list_all is_byte bs
         | PyByteArray bs \<Rightarrow> length bs \<le> 65535 \<and> list_all is_byte bs
         | PyArray bs \<Rightarrow> length bs \<le> 65535 \<and> list_all is_byte bs
         | _ \<Rightarrow> False)
      else
        (case v of
           PyInt n \<Rightarrow>
             (case basic_type_map t of
                Some (fmt, datalen) \<Rightarrow> int_fits fmt n
              | None \<Rightarrow> False)
         | _ \<Rightarrow> False))"

fun conforms :: "pylib \<Rightarrow> pyval \<Rightarrow> pyval \<Rightarrow> bool"
  and conforms_props ::
    "pylib \<Rightarrow> (AbstractBinaryProperty \<times> pyval) list \<Rightarrow>
     (AbstractBinaryProperty \<times> pyval) list \<Rightarrow> bool"
  and conforms_elements :: "pylib \<Rightarrow> pyval \<Rightarrow> pyval list \<Rightarrow> bool"
where
  "conforms L (PyObject cs) (PyObject fs) = conforms_props L cs fs"
| "conforms L c v = False"
| "conforms_props L [] [] = True"
| "conforms_props L ((p, dflt) # cs) ((q, v) # fs) =
     (p = q \<and>
      (case p of
         plain_attribute \<Rightarrow> False
       | binary_property t \<Rightarrow> conforms_scalar L t dflt v
       | array_binary_property element_type \<Rightarrow>
           (case v of
              PyList xs \<Rightarrow> length xs \<le> 65535 \<and> conforms_elements L element_type xs
            | _ \<Rightarrow> False)) \<and>
      conforms_props L cs fs)"
| "conforms_props L cs fs = False"
| "conforms_elements L element_type [] = True"
| "conforms_elements L element_type (x # xs) =
     (conforms L element_type x \<and> conforms_elements L element_type xs)"

text \<open>
  The decoder's representation of a value: a Guid is always a \<open>uuid.UUID\<close> (of the 16
  bytes, the most significant first), a String the unicode text of its UTF-8 bytes, a
  Binary an \<open>array('B')\<close>; everything else is the value itself.
\<close>

definition decoded_scalar :: "DataTypes \<Rightarrow> pyval \<Rightarrow> pyval" where
  "decoded_scalar t v =
     (if t = Guid then (case v of PyStr bs \<Rightarrow> PyUUID (le_int (rev bs)) | _ \<Rightarrow> v)
      else if t = String then (case v of PyStr bs \<Rightarrow> PyUnicode bs | _ \<Rightarrow> v)
      else if t = Binary then
        (case v of PyStr bs \<Rightarrow> PyArray bs | PyByteArray bs \<Rightarrow> PyArray bs | _ \<Rightarrow> v)
      else v)"

fun decoded :: "pyval \<Rightarrow> pyval"
  and decoded_props ::
    "(AbstractBinaryProperty \<times> pyval) list \<Rightarrow> (AbstractBinaryProperty \<times> pyval) list"
  and decoded_elements :: "pyval list \<Rightarrow> pyval list"
where
  "decoded (PyObject fs) = PyObject (decoded_props fs)"
| "decoded v = v"
| "decoded_props [] = []"
| "decoded_props ((p, v) # fs) =
     (p, case p of
           binary_property t \<Rightarrow> decoded_scalar t v
         | array_binary_property element_type \<Rightarrow>
             (case v of PyList xs \<Rightarrow> PyList (decoded_elements xs) | _ \<Rightarrow> v)
         | plain_attribute \<Rightarrow> v) # decoded_props fs"
| "decoded_elements [] = []"
| "decoded_elements (x # xs) = decoded x # decoded_elements xs"

subsection \<open>Predicates of the round trip\<close>

text \<open>The formats of \<open>struct\<close> that pack an integer.\<close>

definition is_int_fmt :: "packfmt \<Rightarrow> bool" where
  "is_int_fmt fmt \<longleftrightarrow> fmt \<noteq> fmt_f \<and> fmt \<noteq> fmt_d \<and> fmt \<noteq> fmt_bool"

text \<open>
  The bytes \<open>bs\<close> are what the encoder writes for \<open>v\<close>, and wherever they stand in a
  buffer the decoder reads \<open>v\<close>, in its own representation, from exactly these bytes.
\<close>

definition scalar_ok :: "pylib \<Rightarrow> DataTypes \<Rightarrow> pyval \<Rightarrow> pyval \<Rightarrow> int list \<Rightarrow> bool" where
  "scalar_ok L t dflt v bs \<longleftrightarrow>
     serialize_scalar L t v = Inr bs \<and> list_all is_byte bs \<and>
     (\<forall>pre post. deserialize_scalar L (pre @ bs @ post) t dflt (length pre)
                  = Inr (decoded_scalar t v, length pre + length bs))"

definition object_ok :: "pylib \<Rightarrow> pyval \<Rightarrow> pyval \<Rightarrow> int list \<Rightarrow> bool" where
  "object_ok L c v bs \<longleftrightarrow>
     serialize L v = Inr bs \<and> list_all is_byte bs \<and>
     (\<forall>pre post. deserialize_object L (pre @ bs @ post) c (length pre)
                  = Inr (decoded v, length pre + length bs))"

definition props_ok ::
  "pylib \<Rightarrow> (AbstractBinaryProperty \<times> pyval) list \<Rightarrow> (AbstractBinaryProperty \<times> pyval) list \<Rightarrow>
   int list \<Rightarrow> bool" where
  "props_ok L cs fs bs \<longleftrightarrow>
     serialize_struct L fs = Inr bs \<and> list_all is_byte bs \<and>
     (\<forall>pre post. deserialize_props L (pre @ bs @ post) cs (length pre)
                  = Inr (decoded_props fs, length pre + length bs))"

definition elements_ok :: "pylib \<Rightarrow> pyval \<Rightarrow> pyval list \<Rightarrow> int list \<Rightarrow> bool" where
  "elements_ok L c xs bs \<longleftrightarrow>
     serialize_elements L xs = Inr bs \<and> list_all is_byte bs \<and>
     (\<forall>pre post. deserialize_elements L (pre @ bs @ post) c (length xs) (length pre)
                  = Inr (decoded_elements xs, length pre + length bs))"

subsection \<open>The objects of BinaryFormatterTest\<close>







subsection \<open>AutoClassFactory and BinaryFactory\<close>

text \<open>
  The value of \<open>Parameters.type\<close>. The property is a \<open>binary_property(DataTypes.Byte)\<close>,
  so in a registration that \<open>deserialize\<close> built from a packet it is the integer read
  from the wire, \<open>WireByte n\<close>; \<open>AutoClassFactoryTest\<close> builds its parameters with a
  constant of \<open>DataTypes\<close>, \<open>Constant t\<close>. \<open>DataTypes\<close> is a \<open>Values\<close> of \<open>ValueConstant\<close>,
  which has no equality of its own: \<open>paramtype == DataTypes.Array\<close> holds for that
  constant alone and for no integer.
\<close>

datatype type_value = Constant DataTypes | WireByte int

definition type_eq :: "type_value \<Rightarrow> DataTypes \<Rightarrow> bool" where
  "type_eq paramtype c \<longleftrightarrow> paramtype = Constant c"

text \<open>
  The payload of a registration: \<open>handle_registration_request\<close> reads nothing of it but
  the commands, the name of each and the type and name of each of its parameters.
\<close>

datatype Parameters = Parameters (param_type: type_value) (param_name: string)

datatype Command =
  Command (cmd_intent: int) (cmd_name: string) (cmd_parameters: "Parameters list")

datatype DeviceRegistration = DeviceRegistration (commands: "Command list")

text \<open>
  What \<open>generate\<close> puts into the dictionary \<open>members\<close>: \<open>None\<close> for a field, a
  \<open>binary_property\<close> of a type over a field, and the list \<open>__binary_struct__\<close> of the
  properties. The dictionary and the \<open>command_map\<close> are association lists; \<open>dict_set\<close>
  is the assignment \<open>d[k] = v\<close>.
\<close>

datatype member =
    NoneMember
  | PropertyMember type_value string
  | StructMember "(type_value \<times> string) list"

datatype AutoClass = AutoClass (class_name: string) (class_members: "(string \<times> member) list")

fun dict_set :: "string \<Rightarrow> 'v \<Rightarrow> (string \<times> 'v) list \<Rightarrow> (string \<times> 'v) list" where
  "dict_set k v [] = [(k, v)]"
| "dict_set k v ((k', v') # kvs) =
     (if k = k' then (k, v) # kvs else (k', v') # dict_set k v kvs)"

text \<open>
  The loop of \<open>generate\<close>. \<open>members['__binary_struct__'].append(prop)\<close> raises
  \<open>AttributeError\<close> when a parameter's name has put something else under that key.
\<close>

fun generate_members ::
  "Parameters list \<Rightarrow> (string \<times> member) list \<Rightarrow> error + (string \<times> member) list" where
  "generate_members [] members = Inr members"
| "generate_members (param # params) members =
     (let fieldname = ''_'' @ param_name param;
          paramtype = param_type param
      in if type_eq paramtype Array then Inl NotImplementedError
         else
           let members = dict_set fieldname NoneMember members;
               members = dict_set (param_name param) (PropertyMember paramtype fieldname) members
           in case map_of members ''__binary_struct__'' of
                Some (StructMember props) \<Rightarrow>
                  generate_members params
                    (dict_set ''__binary_struct__''
                       (StructMember (props @ [(paramtype, fieldname)])) members)
              | _ \<Rightarrow> Inl AttributeError)"

text \<open>
  Whether the call of the builtin \<open>type\<close> raises is left to the argument \<open>type_raises\<close>;
  when it does not, the class is its name and its members.
\<close>

definition generate ::
  "(string \<Rightarrow> (string \<times> member) list \<Rightarrow> error option) \<Rightarrow> Command \<Rightarrow> error + AutoClass" where
  "generate type_raises command =
     (case generate_members (cmd_parameters command) [(''__binary_struct__'', StructMember [])] of
        Inl e \<Rightarrow> Inl e
      | Inr members \<Rightarrow>
          (case type_raises (cmd_name command @ ''Class'') members of
             Some e \<Rightarrow> Inl e
           | None \<Rightarrow> Inr (AutoClass (cmd_name command @ ''Class'') members)))"

text \<open>
  A \<open>BinaryFactory\<close>: its packet buffer, its \<open>command_map\<close> and the attribute
  \<open>_registration_request\<close>, \<open>None\<close> when the object has no such attribute. Of the
  deferred only whether it has been called matters: \<open>callback\<close> raises
  \<open>AlreadyCalledError\<close> on a deferred that has been called. \<open>__init__\<close> sets the buffer
  and the map and then calls \<open>Deferred()\<close>; the module imports \<open>defer\<close> and binds no
  name \<open>Deferred\<close>, so the constructor ends in \<open>NameError\<close>.
\<close>

datatype Deferred = Deferred (called: bool)

datatype BinaryFactory =
  BinaryFactory (packet_buffer: "int list")
    (factory_command_map: "(string \<times> AutoClass) list")
    (registration_request: "Deferred option")

definition BinaryFactory_init :: "error + BinaryFactory" where
  "BinaryFactory_init =
     (if ''Deferred'' \<in> set module_names then Inr (BinaryFactory [] [] (Some (Deferred False)))
      else Inl NameError)"

definition Deferred_callback :: "Deferred \<Rightarrow> error + Deferred" where
  "Deferred_callback d = (if called d then Inl AlreadyCalledError else Inr (Deferred True))"

definition register_command_map :: "BinaryFactory \<Rightarrow> string \<Rightarrow> AutoClass \<Rightarrow> BinaryFactory" where
  "register_command_map self command_name binary_class =
     BinaryFactory (packet_buffer self)
       (dict_set command_name binary_class (factory_command_map self))
       (registration_request self)"

text \<open>The loop of \<open>handle_registration_request\<close> over \<open>reg.commands\<close>.\<close>

fun register_commands ::
  "(string \<Rightarrow> (string \<times> member) list \<Rightarrow> error option) \<Rightarrow> Command list \<Rightarrow>
   (string \<times> AutoClass) list \<Rightarrow> error + (string \<times> AutoClass) list" where
  "register_commands type_raises [] command_map = Inr command_map"
| "register_commands type_raises (command # rest) command_map =
     (if map_of command_map (cmd_name command) = None then
        case generate type_raises command of
          Inl e \<Rightarrow> Inl e
        | Inr cls \<Rightarrow>
            register_commands type_raises rest (dict_set (cmd_name command) cls command_map)
      else register_commands type_raises rest command_map)"

text \<open>
  \<open>handle_registration_request\<close>: the loop, then
  \<open>self._registration_request.callback(None)\<close>.
\<close>

definition handle_registration_request ::
  "(string \<Rightarrow> (string \<times> member) list \<Rightarrow> error option) \<Rightarrow> BinaryFactory \<Rightarrow>
   DeviceRegistration \<Rightarrow> error + BinaryFactory" where
  "handle_registration_request type_raises self reg =
     (case register_commands type_raises (commands reg) (factory_command_map self) of
        Inl e \<Rightarrow> Inl e
      | Inr command_map \<Rightarrow>
          (case registration_request self of
             None \<Rightarrow> Inl AttributeError
           | Some d \<Rightarrow>
               (case Deferred_callback d of
                  Inl e \<Rightarrow> Inl e
                | Inr d' \<Rightarrow> Inr (BinaryFactory (packet_buffer self) command_map (Some d')))))"

text \<open>A parameter's name that takes the key \<open>__binary_struct__\<close> of \<open>members\<close>.\<close>

definition clobbers :: "string \<Rightarrow> bool" where
  "clobbers name \<longleftrightarrow> name = ''__binary_struct__'' \<or> name = ''_binary_struct__''"

text \<open>A registration as \<open>deserialize\<close> builds it: every parameter's type is an integer.\<close>

fun is_wire :: "type_value \<Rightarrow> bool" where
  "is_wire (WireByte n) = True"
| "is_wire (Constant t) = False"

definition wire_decoded :: "DeviceRegistration \<Rightarrow> bool" where
  "wire_decoded reg \<longleftrightarrow>
     list_all (\<lambda>c. list_all (\<lambda>p. is_wire (param_type p)) (cmd_parameters c)) (commands reg)"

section \<open>Arithmetic of bytes\<close>

lemma mask8: "(255::int) = mask 8"
  by (simp add: mask_eq_exp_minus_1)

lemma and_255: "(x::int) AND 255 = x mod 256"
  unfolding mask8 by (simp add: take_bit_eq_mod flip: take_bit_eq_mask)

lemma hi_byte: "drop_bit 8 ((x::int) AND 0xff00) = (x div 256) mod 256"
proof -
  have "drop_bit 8 (x AND 0xff00) = drop_bit 8 x AND drop_bit 8 (0xff00::int)"
    by (rule drop_bit_and)
  also have "drop_bit 8 (0xff00::int) = 255" by (simp add: drop_bit_eq_div)
  finally show ?thesis by (simp add: and_255 drop_bit_eq_div)
qed

lemma or_bytes:
  "push_bit 8 ((b::int) AND 255) OR (a AND 255) = a mod 256 + 256 * (b mod 256)"
proof -
  have "push_bit 8 (b mod 256) OR take_bit 8 a = concat_bit 8 a (b mod 256)"
    by (simp add: concat_bit_def or.commute)
  also have "\<dots> = take_bit 8 a + push_bit 8 (b mod 256)" by (rule concat_bit_eq)
  finally show ?thesis by (simp add: and_255 take_bit_eq_mod push_bit_eq_mult)
qed

lemma push_and_ff00: "push_bit 8 (x::int) AND 0xff00 = push_bit 8 (x AND 255)"
proof -
  have "(0xff00::int) = push_bit 8 255" by (simp add: push_bit_eq_mult)
  then show ?thesis by (simp add: push_bit_and)
qed

lemma is_byte_mod: "is_byte (x mod 256)"
  by (simp add: is_byte_def)

lemma mod_as: "(x::int) mod 256 = x - 256 * (x div 256)"
  by (simp add: minus_mult_div_eq_mod)

lemma byte_rng: "0 \<le> (255::int) - s mod 256 \<and> 255 - s mod 256 < 256"
proof -
  have "0 \<le> s mod 256" "s mod 256 < 256" by simp_all
  then show ?thesis by linarith
qed

lemma reassemble:
  assumes "0 \<le> x" "x \<le> 65535"
  shows "push_bit 8 (drop_bit 8 ((x::int) AND 0xff00) AND 0xff) OR ((x AND 0xff) AND 0xff) = x"
proof -
  have d: "x div 256 < 256" using assms by simp
  have d0: "0 \<le> x div 256" using assms by simp
  have "push_bit 8 (drop_bit 8 (x AND 0xff00) AND 0xff) OR ((x AND 0xff) AND 0xff)
        = (x AND 0xff) mod 256 + 256 * (drop_bit 8 (x AND 0xff00) mod 256)"
    by (rule or_bytes)
  also have "\<dots> = x mod 256 + 256 * (x div 256)"
    using d d0 by (simp only: hi_byte and_255 mod_mod_trivial) simp
  also have "\<dots> = x" by simp
  finally show ?thesis .
qed

lemma frame_sum_aux:
  fixes a b c d e f g h D s :: int
  assumes s: "s = f + b + c + d + g + e + h + a + D"
  shows "(f mod 256 + (b mod 256 + (c mod 256 + (d mod 256 + (e mod 256 +
            (g + (a mod 256 + (h + (D + (255 - s mod 256)))))))))) mod 256 = 255"
proof -
  have "f mod 256 + (b mod 256 + (c mod 256 + (d mod 256 + (e mod 256 +
          (g + (a mod 256 + (h + (D + (255 - s mod 256)))))))))
      = 255 + 256 * (s div 256 - f div 256 - b div 256 - c div 256 - d div 256 -
                     e div 256 - a div 256)"
    unfolding mod_as s by (simp add: algebra_simps)
  then have "(f mod 256 + (b mod 256 + (c mod 256 + (d mod 256 + (e mod 256 +
          (g + (a mod 256 + (h + (D + (255 - s mod 256)))))))))) mod 256
      = (255 + 256 * (s div 256 - f div 256 - b div 256 - c div 256 - d div 256 -
                      e div 256 - a div 256)) mod 256"
    by (rule arg_cong)
  also have "\<dots> = 255 mod 256" by (rule mod_mult_self2)
  also have "\<dots> = 255" by simp
  finally show ?thesis .
qed

section \<open>Encoding and decoding one frame\<close>

lemma checksum_eq: "checksum m = 255 - checksum_base m mod 256"
proof -
  have "checksum m = (255 - checksum_base m mod 256) mod 256"
    by (simp add: checksum_def checksum_base_def Let_def and_255)
  also have "\<dots> = 255 - checksum_base m mod 256"
    using byte_rng[of "checksum_base m"] by simp
  finally show ?thesis .
qed

lemma checksum_byte: "is_byte (checksum m)"
  using byte_rng[of "checksum_base m"] by (simp add: checksum_eq is_byte_def)

lemma header_bytes: "list_all is_byte (header m)"
  by (simp add: header_def and_255 hi_byte is_byte_mod)

lemma header_length: "length (header m) = 8"
  by (simp add: header_def)

lemma to_binary_bytes:
  assumes "list_all is_byte (data m)"
  shows "to_binary m = Inr (header m @ data m @ [checksum m])"
  using assms header_bytes[of m] checksum_byte[of m]
  by (simp add: to_binary_def bytearray_def Let_def header_def)

lemma sum_frame: "sum_list (header m @ data m @ [checksum m]) mod 256 = 255"
proof -
  have "sum_list (header m @ data m @ [checksum m]) =
     drop_bit 8 (signature m AND 0xff00) mod 256 + (signature m mod 256 +
      (version m mod 256 + (flags m mod 256 +
      (msg_length m mod 256 + (drop_bit 8 (msg_length m AND 0xff00) + (intent m mod 256 +
      (drop_bit 8 (intent m AND 0xff00) + (sum_list (data m) +
      (255 - checksum_base m mod 256)))))))))"
    by (simp add: header_def and_255 checksum_eq)
  then show ?thesis
    by (simp only: frame_sum_aux[OF checksum_base_def])
qed

lemma from_binary_frame:
  assumes v: "valid_frame m"
  shows "from_binary (header m @ data m @ checksum m # rest) = Inr m"
proof -
  let ?n = "length (data m)"
  let ?bs = "header m @ data m @ checksum m # rest"
  have sig: "signature m = 0xc5c3" and ver: "version m mod 256 = version m"
    and flg: "flags m mod 256 = flags m"
    and int0: "0 \<le> intent m" and int1: "intent m \<le> 65535"
    and n: "?n \<le> 65535" and bytes: "list_all is_byte (data m)"
    using v by (simp_all add: valid_frame_def is_byte_def PACKET_SIGNATURE_def)
  have len: "\<not> length ?bs < 9" by (simp add: header_def)
  have len': "\<not> int (length ?bs) < int 9 + int ?n" by (simp add: header_def)
  have hl: "length (header m) = 8" by (rule header_length)
  have sgn: "push_bit 8 (?bs ! 0 AND 0xff) OR (?bs ! 1 AND 0xff) = 0xc5c3"
    by (simp add: header_def sig)
  have b2: "?bs ! 2 = version m" by (simp add: header_def and_255 ver)
  have b3: "?bs ! 3 = flags m" by (simp add: header_def and_255 flg)
  have plen: "push_bit 8 (?bs ! 5 AND 0xff) OR (?bs ! 4 AND 0xff) = int ?n"
    using reassemble[of "msg_length m"] n by (simp add: header_def msg_length_def)
  have pint: "push_bit 8 (?bs ! 7 AND 0xff) OR (?bs ! 6 AND 0xff) = intent m"
    using reassemble[OF int0 int1] by (simp add: header_def)
  have payload: "take ?n (drop 8 ?bs) = data m" by (simp add: hl)
  have whole: "take (8 + ?n + 1) ?bs = header m @ data m @ [checksum m]" by (simp add: hl)
  have crc: "sum_list (header m @ data m @ [checksum m]) AND 0xff = 0xff"
    by (simp only: and_255 sum_frame)
  have m_eq: "\<lparr>signature = 0xc5c3, version = version m, flags = flags m,
                  intent = intent m, data = data m\<rparr> = m"
    using sig by (cases m) simp
  show ?thesis
    unfolding from_binary_def Let_def packet_consts
    by (simp only: len len' sgn b2 b3 plen pint payload whole crc bytes bytearray_def nat_int)
       (simp add: m_eq)
qed

section \<open>The packet buffer on a stream of frames\<close>

lemma payload_len_eq:
  "(push_bit 8 (b::int) AND 0xff00) OR (a AND 0xff) = push_bit 8 (b AND 0xff) OR (a AND 0xff)"
  by (simp only: push_and_ff00)

lemma has_packet_iff:
  "has_packet d \<longleftrightarrow> \<not> length d < 9 \<and> \<not> int (length d) < 9 + len_field d"
  unfolding has_packet_def Let_def packet_consts payload_len_eq len_field_def
  by (simp only: add.commute of_nat_numeral if_bool_eq_conj simp_thms) blast

lemma frame_length_eq: "frame_length d = 9 + nat (len_field d)"
  unfolding frame_length_def packet_consts payload_len_eq len_field_def by simp

lemma frame_bytes_length: "length (frame_bytes m) = 9 + length (data m)"
  by (simp add: frame_bytes_def header_length)

lemma frame_plen:
  assumes "valid_frame m"
  shows "len_field (frame_bytes m @ rest) = int (length (data m))"
proof -
  have n: "length (data m) \<le> 65535" using assms by (simp add: valid_frame_def)
  have "(frame_bytes m @ rest) ! 5 = drop_bit 8 (msg_length m AND 0xff00)"
       "(frame_bytes m @ rest) ! 4 = msg_length m AND 0xff"
    by (simp_all add: frame_bytes_def header_def)
  then have "len_field (frame_bytes m @ rest) =
          push_bit 8 (drop_bit 8 (msg_length m AND 0xff00) AND 0xff) OR
            ((msg_length m AND 0xff) AND 0xff)"
    by (simp only: len_field_def)
  also have "\<dots> = msg_length m"
    using n by (intro reassemble) (simp_all add: msg_length_def)
  finally show ?thesis by (simp add: msg_length_def)
qed

lemma len_field_take: "6 \<le> k \<Longrightarrow> len_field (take k d) = len_field d"
  by (simp add: len_field_def)

lemma frame_start:
  "valid_frame m \<Longrightarrow> \<exists>r. frame_bytes m @ rest = PACKET_SIGNATURE_HI # PACKET_SIGNATURE_LO # r"
  by (simp add: valid_frame_def frame_bytes_def header_def packet_consts)

lemma invariant_skip: "buffer_invariant d \<Longrightarrow> skip_to_next_packet d = d"
  by (induction d rule: buffer_invariant.induct)
     (subst skip_to_next_packet.simps, simp add: Let_def)+

lemma invariant_take: "buffer_invariant d \<Longrightarrow> buffer_invariant (take k d)"
proof (induction d rule: buffer_invariant.induct)
  case 1 then show ?case by simp
next
  case (2 a) then show ?case by (cases k) simp_all
next
  case (3 a b r)
  then show ?case
    by (cases k; simp) (rename_tac k', case_tac k'; simp)
qed

lemma frame_invariant: "valid_frame m \<Longrightarrow> buffer_invariant (frame_bytes m @ rest)"
  using frame_start[of m rest] by auto

lemma partial_invariant: "partial_frame p \<Longrightarrow> buffer_invariant p"
  unfolding partial_frame_def
  using frame_invariant[of _ "[]"] invariant_take by auto

lemma partial_no_packet:
  assumes "partial_frame p" shows "\<not> has_packet p"
proof (cases "p = []")
  case True then show ?thesis by (simp add: has_packet_iff)
next
  case False
  then obtain m k where m: "valid_frame m" and k: "k < length (frame_bytes m)"
    and p: "p = take k (frame_bytes m)"
    using assms unfolding partial_frame_def by blast
  have lp: "length p = k" using k by (simp add: p)
  show ?thesis
  proof (cases "k < 9")
    case True then show ?thesis by (simp add: has_packet_iff lp)
  next
    case False
    then have "len_field p = len_field (frame_bytes m)" by (simp add: p len_field_take)
    then have "len_field p = int (length (data m))"
      using frame_plen[OF m, of "[]"] by simp
    then show ?thesis using k by (simp add: has_packet_iff frame_bytes_length lp)
  qed
qed

lemma pop_packet_frame:
  assumes m: "valid_frame m"
  shows "has_packet (frame_bytes m @ rest)"
    and "pop_packet (frame_bytes m @ rest) = (Inr (Some m), skip_to_next_packet rest)"
proof -
  let ?d = "frame_bytes m @ rest"
  show h: "has_packet ?d"
    by (simp add: has_packet_iff frame_plen[OF m] frame_bytes_length)
  have "from_binary ?d = Inr m"
    using from_binary_frame[OF m, of rest] by (simp add: frame_bytes_def)
  moreover have "drop (frame_length ?d) ?d = rest"
    by (simp add: frame_length_eq frame_plen[OF m] frame_bytes_length)
  ultimately show "pop_packet ?d = (Inr (Some m), skip_to_next_packet rest)"
    using h by (simp add: pop_packet_def frame_length_def)
qed

lemma stream_invariant:
  assumes "list_all valid_frame ms" "partial_frame p"
  shows "buffer_invariant (concat (map frame_bytes ms) @ p)"
proof (cases ms)
  case Nil then show ?thesis using assms(2) by (simp add: partial_invariant)
next
  case (Cons m ms')
  then show ?thesis using assms(1) frame_invariant[of m "concat (map frame_bytes ms') @ p"] by simp
qed

lemma pop_all_stream:
  assumes "list_all valid_frame ms" "partial_frame p"
  shows "pop_all (concat (map frame_bytes ms) @ p) = Inr (ms, p)"
  using assms
proof (induction ms)
  case Nil
  then show ?case
    using partial_no_packet[of p] by (subst pop_all.simps) simp
next
  case (Cons m ms)
  let ?rest = "concat (map frame_bytes ms) @ p"
  have m: "valid_frame m" and ms: "list_all valid_frame ms" using Cons.prems by simp_all
  have "skip_to_next_packet ?rest = ?rest"
    by (rule invariant_skip[OF stream_invariant[OF ms Cons.prems(2)]])
  then have pp: "pop_packet (frame_bytes m @ ?rest) = (Inr (Some m), ?rest)"
    using pop_packet_frame(2)[OF m, of ?rest] by simp
  have "pop_all (frame_bytes m @ ?rest) = Inr (m # ms, p)"
    by (subst pop_all.simps) (simp add: pop_packet_frame(1)[OF m] pp Cons.IH[OF ms Cons.prems(2)])
  then show ?case by simp
qed

lemma split_blocks:
  "x @ t = concat bs \<Longrightarrow>
   \<exists>k p. k \<le> length bs \<and> x = concat (take k bs) @ p \<and> p @ t = concat (drop k bs) \<and>
         (k < length bs \<longrightarrow> length p < length (bs ! k))"
proof (induction bs arbitrary: x)
  case Nil
  then show ?case by simp
next
  case (Cons b bs)
  show ?case
  proof (cases "length x < length b")
    case True
    have "0 \<le> length (b # bs) \<and> x = concat (take 0 (b # bs)) @ x \<and>
          x @ t = concat (drop 0 (b # bs)) \<and>
          (0 < length (b # bs) \<longrightarrow> length x < length ((b # bs) ! 0))"
      using True Cons.prems by simp
    then show ?thesis by blast
  next
    case False
    from Cons.prems have eq: "x @ t = b @ concat bs" by simp
    with False obtain x' where x: "x = b @ x'" and x': "x' @ t = concat bs"
      by (auto simp: append_eq_append_conv2)
    from Cons.IH[OF x'] obtain k p where
      kp: "k \<le> length bs" "x' = concat (take k bs) @ p" "p @ t = concat (drop k bs)"
          "k < length bs \<longrightarrow> length p < length (bs ! k)" by blast
    have "Suc k \<le> length (b # bs) \<and> x = concat (take (Suc k) (b # bs)) @ p \<and>
          p @ t = concat (drop (Suc k) (b # bs)) \<and>
          (Suc k < length (b # bs) \<longrightarrow> length p < length ((b # bs) ! Suc k))"
      using kp x by simp
    then show ?thesis by blast
  qed
qed

lemma partial_of_split:
  assumes ms: "list_all valid_frame ms"
    and pt: "p @ t = concat (drop k (map frame_bytes ms))"
    and lt: "k < length (map frame_bytes ms) \<longrightarrow> length p < length (map frame_bytes ms ! k)"
  shows "partial_frame p"
proof (cases "k < length ms")
  case False
  then have "p = []" using pt by simp
  then show ?thesis by (simp add: partial_frame_def)
next
  case True
  then have v: "valid_frame (ms ! k)" using ms by (simp add: list_all_length)
  have l: "length p < length (frame_bytes (ms ! k))" using lt True by simp
  have "drop k (map frame_bytes ms) = frame_bytes (ms ! k) # drop (Suc k) (map frame_bytes ms)"
    using True by (simp add: Cons_nth_drop_Suc[symmetric])
  then have "p @ t = frame_bytes (ms ! k) @ concat (drop (Suc k) (map frame_bytes ms))"
    using pt by simp
  then have "p = take (length p) (frame_bytes (ms ! k))"
    using l by (metis less_imp_le_nat append_eq_append_conv_if)
  then show ?thesis using v l unfolding partial_frame_def by blast
qed

lemma feed_stream:
  assumes "list_all valid_frame rs"
    and "p @ concat cs = concat (map frame_bytes rs)"
    and "rs \<noteq> [] \<longrightarrow> length p < length (frame_bytes (hd rs))"
  shows "feed p cs = Inr (rs, [])"
  using assms
proof (induction cs arbitrary: p rs)
  case Nil
  have "rs = []"
  proof (rule ccontr)
    assume "rs \<noteq> []"
    then obtain r rs' where r: "rs = r # rs'" by (cases rs) auto
    with Nil.prems(2,3) show False by (auto dest: arg_cong[where f = length])
  qed
  with Nil.prems(2) show ?case by simp
next
  case (Cons c cs)
  have "(p @ c) @ concat cs = concat (map frame_bytes rs)" using Cons.prems(2) by simp
  from split_blocks[OF this] obtain k p' where
    k: "k \<le> length (map frame_bytes rs)"
    and x: "p @ c = concat (take k (map frame_bytes rs)) @ p'"
    and t: "p' @ concat cs = concat (drop k (map frame_bytes rs))"
    and l: "k < length (map frame_bytes rs) \<longrightarrow> length p' < length (map frame_bytes rs ! k)"
    by blast
  have part: "partial_frame p'" by (rule partial_of_split[OF Cons.prems(1) t l])
  have v1: "list_all valid_frame (take k rs)" and v2: "list_all valid_frame (drop k rs)"
    using Cons.prems(1) by (auto simp: list_all_iff dest: in_set_takeD in_set_dropD)
  have x': "p @ c = concat (map frame_bytes (take k rs)) @ p'" using x by (simp add: take_map)
  have "append_buf p c = p @ c"
    unfolding append_buf_def x'
    by (rule invariant_skip[OF stream_invariant[OF v1 part]])
  then have pa: "pop_all (append_buf p c) = Inr (take k rs, p')"
    using pop_all_stream[OF v1 part] x' by simp
  have t': "p' @ concat cs = concat (map frame_bytes (drop k rs))" using t by (simp add: drop_map)
  have l': "drop k rs \<noteq> [] \<longrightarrow> length p' < length (frame_bytes (hd (drop k rs)))"
    using l by (auto simp: hd_drop_conv_nth)
  have "feed p' cs = Inr (drop k rs, [])" by (rule Cons.IH[OF v2 t' l'])
  with pa show ?case by simp
qed

lemma has_packet_lengths:
  assumes "has_packet d"
  shows "\<not> length d < 9"
    and "\<not> int (length d) < int 9 + (push_bit 8 (d ! 5 AND 0xff) OR (d ! 4 AND 0xff))"
  using assms unfolding has_packet_iff len_field_def
  by (simp_all only: of_nat_numeral simp_thms)

lemma signature_bytes:
  assumes "d ! 0 = PACKET_SIGNATURE_HI" and "d ! 1 = PACKET_SIGNATURE_LO"
  shows "push_bit 8 (d ! 0 AND 0xff) OR (d ! 1 AND 0xff) = (0xc5c3::int)"
  unfolding assms packet_consts by simp

lemma bytes_take_drop:
  assumes "list_all is_byte d"
  shows "list_all is_byte (take n (drop k d))"
  using assms by (auto simp: list_all_iff dest: in_set_takeD in_set_dropD)


lemma skip_rel_shorter: "skip_to_next_packet_rel d' d \<Longrightarrow> length d' < length d"
  by (cases rule: skip_to_next_packet_rel.cases) auto

section \<open>Packing and unpacking integers\<close>

lemma le_bytes_length: "length (le_bytes k n) = k"
  by (induction k arbitrary: n) simp_all

lemma le_bytes_bytes: "list_all is_byte (le_bytes k n)"
  by (induction k arbitrary: n) (simp_all add: is_byte_def)

lemma le_int_le_bytes: "le_int (le_bytes k n) = n mod 256 ^ k"
proof (induction k arbitrary: n)
  case 0
  show ?case by simp
next
  case (Suc k)
  have "le_int (le_bytes (Suc k) n) = n mod 256 + 256 * ((n div 256) mod 256 ^ k)"
    by (simp add: Suc.IH)
  also have "\<dots> = n mod (256 * 256 ^ k)"
    by (simp add: zmod_zmult2_eq)
  finally show ?case by simp
qed

lemma le_bytes_nth: "i < k \<Longrightarrow> le_bytes k n ! i = (n div 256 ^ i) mod 256"
proof (induction k arbitrary: n i)
  case 0
  then show ?case by simp
next
  case (Suc k)
  show ?case
  proof (cases i)
    case 0
    then show ?thesis by simp
  next
    case (Suc j)
    then have "j < k" using Suc.prems by simp
    then show ?thesis
      using Suc.IH[of j "n div 256"] Suc by (simp add: zdiv_zmult2_eq)
  qed
qed

lemma unpack_pack_unsigned:
  assumes "\<not> fmt_signed fmt" "0 \<le> n" "n < 2 ^ (8 * calcsize fmt)"
  shows "unpack_int fmt (le_bytes (calcsize fmt) n) = n"
proof -
  have "(256::int) ^ calcsize fmt = 2 ^ (8 * calcsize fmt)"
    by (simp add: power_mult)
  then show ?thesis
    using assms by (simp add: unpack_int_def le_int_le_bytes Let_def)
qed

lemma unpack_pack_signed:
  assumes "fmt_signed fmt" "- (2 ^ (8 * calcsize fmt - 1)) \<le> n" "n < 2 ^ (8 * calcsize fmt - 1)"
  shows "unpack_int fmt (le_bytes (calcsize fmt) n) = n"
proof -
  let ?b = "8 * calcsize fmt"
  have pos: "0 < ?b" by (cases fmt) simp_all
  have p: "(256::int) ^ calcsize fmt = 2 ^ ?b" by (simp add: power_mult)
  have h: "(2::int) ^ ?b = 2 * 2 ^ (?b - 1)"
    using pos by (metis power_minus_mult mult.commute)
  show ?thesis
  proof (cases "0 \<le> n")
    case True
    then have "n mod 2 ^ ?b = n" using assms(3) h by simp
    then show ?thesis using assms True by (simp add: unpack_int_def le_int_le_bytes Let_def p)
  next
    case False
    have "(n + 2 ^ ?b) mod 2 ^ ?b = n + 2 ^ ?b"
      using False assms(2) h by (intro mod_pos_pos_trivial) auto
    then have "n mod 2 ^ ?b = n + 2 ^ ?b" by simp
    then show ?thesis using assms False h
      by (simp add: unpack_int_def le_int_le_bytes Let_def p)
  qed
qed


lemma pack_int_fits: "int_fits fmt n \<Longrightarrow> pack_int fmt n = Inr (le_bytes (calcsize fmt) n)"
  by (simp add: pack_int_def)

lemma unpack_int_fits: "int_fits fmt n \<Longrightarrow> unpack_int fmt (le_bytes (calcsize fmt) n) = n"
  using unpack_pack_signed[of fmt n] unpack_pack_unsigned[of fmt n]
  by (simp add: int_fits_def split: if_splits)

lemma window:
  "length bs = k \<Longrightarrow> take k (drop (length pre) (pre @ bs @ post)) = bs"
  by simp

lemma struct_pack_int:
  assumes "is_int_fmt fmt" "int_fits fmt n"
  shows "struct_pack L fmt (PyInt n) = Inr (le_bytes (calcsize fmt) n)"
  using assms by (simp add: struct_pack_def is_int_fmt_def pack_int_fits)

lemma struct_unpack_int:
  assumes "is_int_fmt fmt" "int_fits fmt n"
  shows "struct_unpack_from L fmt (pre @ le_bytes (calcsize fmt) n @ post) (length pre) = Inr (PyInt n)"
proof -
  have "take (calcsize fmt) (drop (length pre) (pre @ le_bytes (calcsize fmt) n @ post))
        = le_bytes (calcsize fmt) n"
    by (rule window) (rule le_bytes_length)
  then show ?thesis
    using assms
    by (simp add: struct_unpack_from_def is_int_fmt_def le_bytes_length unpack_int_fits Let_def
             del: take_append drop_append)
qed

lemma fits_H: "n \<le> 65535 \<Longrightarrow> int_fits fmt_H (int n)"
  by (simp add: int_fits_def)

lemma pack_H:
  "n \<le> 65535 \<Longrightarrow> struct_pack L fmt_H (PyInt (int n)) = Inr (le_bytes 2 (int n))"
  using struct_pack_int[of fmt_H "int n" L] by (simp add: is_int_fmt_def fits_H)

lemma unpack_H_window:
  assumes "n \<le> 65535"
  shows "unpack_H (pre @ le_bytes 2 (int n) @ post) (length pre) = Inr n"
proof -
  have "take 2 (drop (length pre) (pre @ le_bytes 2 (int n) @ post)) = le_bytes 2 (int n)"
    by (rule window) (rule le_bytes_length)
  moreover have "unpack_int fmt_H (le_bytes 2 (int n)) = int n"
    using unpack_int_fits[OF fits_H[OF assms]] by simp
  ultimately show ?thesis
    by (simp add: unpack_H_def le_bytes_length del: take_append drop_append)
qed


lemma or_add:
  assumes "2 ^ n dvd x" "0 \<le> y" "y < 2 ^ n"
  shows "x OR y = x + (y::int)"
proof -
  from assms(1) obtain k where x: "x = 2 ^ n * k" by (auto simp: dvd_def)
  have y: "take_bit n y = y" using assms(2,3) by (simp add: take_bit_int_eq_self)
  have "x OR y = push_bit n k OR take_bit n y" by (simp add: x y push_bit_eq_mult mult.commute)
  also have "\<dots> = concat_bit n y k" by (simp add: concat_bit_def or.commute)
  also have "\<dots> = take_bit n y + push_bit n k" by (rule concat_bit_eq)
  finally show ?thesis by (simp add: x y push_bit_eq_mult mult.commute)
qed

lemma uuid_fields:
  assumes b: "list_all is_byte [v0, v1, v2, v3, v4, v5, v6, v7, v8, v9, v10, v11, v12, v13, v14, v15]"
  shows "UUID_of_fields
           (((push_bit 24 v0 OR push_bit 16 v1) OR push_bit 8 v2) OR v3,
            push_bit 8 v4 OR v5,
            push_bit 8 v6 OR v7,
            v8,
            v9,
            ((((push_bit 40 v10 OR push_bit 32 v11) OR push_bit 24 v12) OR
            push_bit 16 v13) OR push_bit 8 v14) OR v15)
         = Inr (PyUUID (le_int (rev [v0, v1, v2, v3, v4, v5, v6, v7, v8, v9, v10, v11, v12, v13, v14, v15])))"
proof -
  have r: "0 \<le> v0" "v0 < 256" "0 \<le> v1" "v1 < 256" "0 \<le> v2" "v2 < 256" "0 \<le> v3" "v3 < 256"
    "0 \<le> v4" "v4 < 256" "0 \<le> v5" "v5 < 256" "0 \<le> v6" "v6 < 256" "0 \<le> v7" "v7 < 256"
    "0 \<le> v8" "v8 < 256" "0 \<le> v9" "v9 < 256" "0 \<le> v10" "v10 < 256" "0 \<le> v11" "v11 < 256"
    "0 \<le> v12" "v12 < 256" "0 \<le> v13" "v13 < 256" "0 \<le> v14" "v14 < 256" "0 \<le> v15" "v15 < 256"
    using b by (simp_all add: is_byte_def)
  define tl where "tl = 16777216 * v0 + 65536 * v1 + 256 * v2 + v3"
  define tm where "tm = 256 * v4 + v5"
  define th where "th = 256 * v6 + v7"
  define cs where "cs = 256 * v8 + v9"
  define nd where "nd = 1099511627776 * v10 + 4294967296 * v11 + 16777216 * v12 + 65536 * v13 + 256 * v14 + v15"
  have tl1: "push_bit 24 v0 OR push_bit 16 v1 = 16777216 * v0 + 65536 * v1"
    by (subst or_add[where n = 24]) (use r in \<open>simp_all add: push_bit_eq_mult\<close>)
  have tl2: "(16777216 * v0 + 65536 * v1) OR push_bit 8 v2 = 16777216 * v0 + 65536 * v1 + 256 * v2"
    by (subst or_add[where n = 16]) (use r in \<open>simp_all add: push_bit_eq_mult\<close>)
  have tl3: "(16777216 * v0 + 65536 * v1 + 256 * v2) OR v3 = tl"
    unfolding tl_def by (subst or_add[where n = 8]) (use r in \<open>simp_all add: push_bit_eq_mult\<close>)
  have tl: "((push_bit 24 v0 OR push_bit 16 v1) OR push_bit 8 v2) OR v3 = tl"
    by (simp only: tl1 tl2 tl3)
  have tm: "push_bit 8 v4 OR v5 = tm"
    unfolding tm_def by (subst or_add[where n = 8]) (use r in \<open>simp_all add: push_bit_eq_mult\<close>)
  have th: "push_bit 8 v6 OR v7 = th"
    unfolding th_def by (subst or_add[where n = 8]) (use r in \<open>simp_all add: push_bit_eq_mult\<close>)
  have cs: "push_bit 8 v8 OR v9 = cs"
    unfolding cs_def by (subst or_add[where n = 8]) (use r in \<open>simp_all add: push_bit_eq_mult\<close>)
  have n1: "push_bit 40 v10 OR push_bit 32 v11 = 1099511627776 * v10 + 4294967296 * v11"
    by (subst or_add[where n = 40]) (use r in \<open>simp_all add: push_bit_eq_mult\<close>)
  have n2: "(1099511627776 * v10 + 4294967296 * v11) OR push_bit 24 v12
            = 1099511627776 * v10 + 4294967296 * v11 + 16777216 * v12"
    by (subst or_add[where n = 32]) (use r in \<open>simp_all add: push_bit_eq_mult\<close>)
  have n3: "(1099511627776 * v10 + 4294967296 * v11 + 16777216 * v12) OR push_bit 16 v13
            = 1099511627776 * v10 + 4294967296 * v11 + 16777216 * v12 + 65536 * v13"
    by (subst or_add[where n = 24]) (use r in \<open>simp_all add: push_bit_eq_mult\<close>)
  have n4: "(1099511627776 * v10 + 4294967296 * v11 + 16777216 * v12 + 65536 * v13) OR push_bit 8 v14
            = 1099511627776 * v10 + 4294967296 * v11 + 16777216 * v12 + 65536 * v13 + 256 * v14"
    by (subst or_add[where n = 16]) (use r in \<open>simp_all add: push_bit_eq_mult\<close>)
  have n5: "(1099511627776 * v10 + 4294967296 * v11 + 16777216 * v12 + 65536 * v13 + 256 * v14) OR v15
            = nd"
    unfolding nd_def by (subst or_add[where n = 8]) (use r in \<open>simp_all add: push_bit_eq_mult\<close>)
  have nd: "((((push_bit 40 v10 OR push_bit 32 v11) OR push_bit 24 v12) OR
            push_bit 16 v13) OR push_bit 8 v14) OR v15 = nd"
    by (simp only: n1 n2 n3 n4 n5)
  have rng: "0 \<le> tl" "tl < 4294967296" "0 \<le> tm" "tm < 65536" "0 \<le> th" "th < 65536"
    "0 \<le> cs" "cs < 65536" "0 \<le> nd" "nd < 281474976710656"
    using r unfolding tl_def tm_def th_def cs_def nd_def by linarith+
  have j1: "push_bit 96 tl OR push_bit 80 tm = 79228162514264337593543950336 * tl + 1208925819614629174706176 * tm"
    by (subst or_add[where n = 96]) (use rng in \<open>simp_all add: push_bit_eq_mult\<close>)
  have j2: "(79228162514264337593543950336 * tl + 1208925819614629174706176 * tm) OR push_bit 64 th
         = 79228162514264337593543950336 * tl + 1208925819614629174706176 * tm + 18446744073709551616 * th"
    by (subst or_add[where n = 80]) (use rng in \<open>simp_all add: push_bit_eq_mult\<close>)
  have j3: "(79228162514264337593543950336 * tl + 1208925819614629174706176 * tm + 18446744073709551616 * th)
           OR push_bit 48 cs
         = 79228162514264337593543950336 * tl + 1208925819614629174706176 * tm + 18446744073709551616 * th
           + 281474976710656 * cs"
    by (subst or_add[where n = 64]) (use rng in \<open>simp_all add: push_bit_eq_mult\<close>)
  have j4: "(79228162514264337593543950336 * tl + 1208925819614629174706176 * tm + 18446744073709551616 * th
           + 281474976710656 * cs) OR nd
         = 79228162514264337593543950336 * tl + 1208925819614629174706176 * tm + 18446744073709551616 * th
           + 281474976710656 * cs + nd"
    by (subst or_add[where n = 48]) (use rng in \<open>simp_all add: push_bit_eq_mult\<close>)
  have joined: "(((push_bit 96 tl OR push_bit 80 tm) OR push_bit 64 th) OR push_bit 48 cs) OR nd
      = le_int (rev [v0, v1, v2, v3, v4, v5, v6, v7, v8, v9, v10, v11, v12, v13, v14, v15])"
    unfolding j1 j2 j3 j4 by (simp add: tl_def tm_def th_def cs_def nd_def)
  have chk: "push_bit 32 (1::int) = 4294967296" "push_bit 16 (1::int) = 65536"
    "push_bit 8 (1::int) = 256" "push_bit 48 (1::int) = 281474976710656"
    by (simp_all add: push_bit_eq_mult)
  have c8: "v8 < 256" "0 \<le> v8" "v9 < 256" "0 \<le> v9" using r by simp_all
  show ?thesis
    unfolding tl tm th nd UUID_of_fields_def prod.case chk Let_def cs
    using rng c8 joined by simp
qed


lemma list16:
  assumes "length v = 16"
  obtains v0 v1 v2 v3 v4 v5 v6 v7 v8 v9 v10 v11 v12 v13 v14 v15 :: "'a"
  where "v = [v0, v1, v2, v3, v4, v5, v6, v7, v8, v9, v10, v11, v12, v13, v14, v15]"
proof -
  have "v = [v ! 0, v ! 1, v ! 2, v ! 3, v ! 4, v ! 5, v ! 6, v ! 7, v ! 8, v ! 9, v ! 10,
             v ! 11, v ! 12, v ! 13, v ! 14, v ! 15]"
    using assms by (intro nth_equalityI) (auto simp: nth_Cons' less_Suc_eq numeral_eq_Suc)
  then show ?thesis by (rule that)
qed

lemma uuid_of_bytes:
  assumes "length v = 16" "list_all is_byte v"
  shows "UUID_of_fields (guid_fields v) = Inr (PyUUID (le_int (rev v)))"
proof -
  from assms(1) obtain v0 v1 v2 v3 v4 v5 v6 v7 v8 v9 v10 v11 v12 v13 v14 v15
    where v: "v = [v0, v1, v2, v3, v4, v5, v6, v7, v8, v9, v10, v11, v12, v13, v14, v15]"
    by (rule list16)
  have idx: "v ! 0 = v0" "v ! 1 = v1" "v ! 2 = v2" "v ! 3 = v3" "v ! 4 = v4" "v ! 5 = v5"
    "v ! 6 = v6" "v ! 7 = v7" "v ! 8 = v8" "v ! 9 = v9" "v ! 10 = v10" "v ! 11 = v11"
    "v ! 12 = v12" "v ! 13 = v13" "v ! 14 = v14" "v ! 15 = v15"
    by (simp_all add: v)
  have b: "list_all is_byte [v0, v1, v2, v3, v4, v5, v6, v7, v8, v9, v10, v11, v12, v13, v14, v15]"
    using assms(2) by (simp only: v)
  show ?thesis
    unfolding guid_fields_def idx using uuid_fields[OF b] by (simp only: v)
qed

lemma UUID_bytes_le: "UUID_bytes n = rev (le_bytes 16 n)"
proof (rule nth_equalityI)
  show "length (UUID_bytes n) = length (rev (le_bytes 16 n))"
    by (simp add: UUID_bytes_def le_bytes_length)
next
  fix i assume "i < length (UUID_bytes n)"
  then have i: "i < 16" by (simp add: UUID_bytes_def)
  have "UUID_bytes n ! i = drop_bit (8 * (15 - i)) n AND 0xff"
    using i by (simp add: UUID_bytes_def rev_nth del: upt_rec_numeral)
  also have "\<dots> = (n div 256 ^ (15 - i)) mod 256"
    by (simp add: and_255 drop_bit_eq_div power_mult)
  also have "\<dots> = rev (le_bytes 16 n) ! i"
    using i by (simp add: rev_nth le_bytes_length le_bytes_nth)
  finally show "UUID_bytes n ! i = rev (le_bytes 16 n) ! i" .
qed

lemma UUID_bytes_props:
  "length (UUID_bytes n) = 16" "list_all is_byte (UUID_bytes n)"
  using le_bytes_bytes[of 16 n]
  by (simp_all add: UUID_bytes_le le_bytes_length list_all_iff)

lemma UUID_bytes_int: "0 \<le> n \<Longrightarrow> n < 2 ^ 128 \<Longrightarrow> le_int (rev (UUID_bytes n)) = n"
  by (simp add: UUID_bytes_le le_int_le_bytes)

section \<open>The round trip of one property\<close>

lemma scalar_null: "scalar_ok L Null dflt dflt []"
  by (simp add: scalar_ok_def serialize_scalar_def deserialize_scalar_def decoded_scalar_def)

lemma scalar_int:
  assumes "basic_type_map t = Some (fmt, calcsize fmt)" "is_int_fmt fmt" "int_fits fmt n"
    and "t \<noteq> Null" "t \<noteq> Guid" "t \<noteq> String" "t \<noteq> Binary"
  shows "scalar_ok L t dflt (PyInt n) (le_bytes (calcsize fmt) n)"
  unfolding scalar_ok_def
proof (intro conjI allI)
  show "serialize_scalar L t (PyInt n) = Inr (le_bytes (calcsize fmt) n)"
    using assms by (simp add: serialize_scalar_def struct_pack_int)
  show "list_all is_byte (le_bytes (calcsize fmt) n)" by (rule le_bytes_bytes)
  fix pre post
  show "deserialize_scalar L (pre @ le_bytes (calcsize fmt) n @ post) t dflt (length pre)
        = Inr (decoded_scalar t (PyInt n), length pre + length (le_bytes (calcsize fmt) n))"
    using assms
    by (simp add: deserialize_scalar_def struct_unpack_int le_bytes_length decoded_scalar_def)
qed

lemma scalar_bool: "scalar_ok L Boolean dflt (PyBool b) [if b then 1 else 0]"
  by (simp add: scalar_ok_def serialize_scalar_def deserialize_scalar_def decoded_scalar_def
      struct_pack_def struct_unpack_from_def is_byte_def)

lemma scalar_float:
  assumes "t = Single \<or> t = Double" "float_round_trips L t v"
  shows "\<exists>bs. scalar_ok L t dflt v bs"
proof -
  from assms(2) obtain bs where p: "pack_float L t v = Inr bs"
    and l: "length bs = (if t = Single then 4 else 8)" and b: "list_all is_byte bs"
    and u: "unpack_float L t bs = v"
    by (auto simp: float_round_trips_def split: sum.splits)
  have w: "\<And>pre post. take (length bs) (drop (length pre) (pre @ bs @ post)) = bs"
    by (rule window) simp
  have "scalar_ok L t dflt v bs"
    using assms(1) p l b u w
    by (auto simp: scalar_ok_def serialize_scalar_def deserialize_scalar_def decoded_scalar_def
        struct_pack_def struct_unpack_from_def simp del: take_append drop_append)
  then show ?thesis ..
qed


lemma window16:
  "length bs = 16 \<Longrightarrow> unpack_16B (pre @ bs @ post) (length pre) = Inr bs"
  by (simp add: unpack_16B_def)

lemma guid_decode:
  assumes "length bs = 16" "list_all is_byte bs"
  shows "deserialize_scalar L (pre @ bs @ post) Guid dflt (length pre)
         = Inr (PyUUID (le_int (rev bs)), length pre + length bs)"
  by (simp add: deserialize_scalar_def window16[OF assms(1)] uuid_of_bytes[OF assms] assms(1))

lemma scalar_guid_uuid:
  assumes "0 \<le> n" "n < 2 ^ 128"
  shows "scalar_ok L Guid dflt (PyUUID n) (UUID_bytes n)"
  unfolding scalar_ok_def
proof (intro conjI allI)
  show "serialize_scalar L Guid (PyUUID n) = Inr (UUID_bytes n)"
    by (simp add: serialize_scalar_def)
  show "list_all is_byte (UUID_bytes n)" by (rule UUID_bytes_props)
  fix pre post
  show "deserialize_scalar L (pre @ UUID_bytes n @ post) Guid dflt (length pre)
        = Inr (decoded_scalar Guid (PyUUID n), length pre + length (UUID_bytes n))"
    using guid_decode[OF UUID_bytes_props(1) UUID_bytes_props(2), where L = L and pre = pre
                      and post = post and dflt = dflt]
      UUID_bytes_int[OF assms]
    by (simp add: decoded_scalar_def)
qed

lemma scalar_guid_str:
  assumes "length bs = 16" "list_all is_byte bs"
  shows "scalar_ok L Guid dflt (PyStr bs) bs"
  unfolding scalar_ok_def
proof (intro conjI allI)
  show "serialize_scalar L Guid (PyStr bs) = Inr bs"
    using assms(1) by (simp add: serialize_scalar_def)
  show "list_all is_byte bs" by (rule assms)
  fix pre post
  show "deserialize_scalar L (pre @ bs @ post) Guid dflt (length pre)
        = Inr (decoded_scalar Guid (PyStr bs), length pre + length bs)"
    using guid_decode[OF assms, of L pre post dflt] by (simp add: decoded_scalar_def)
qed

lemma prefixed_window:
  assumes "length bs \<le> 65535"
  shows "unpack_H (pre @ (le_bytes 2 (int (length bs)) @ bs) @ post) (length pre)
         = Inr (length bs)"
    and "take (length bs) (drop (length pre + 2) (pre @ (le_bytes 2 (int (length bs)) @ bs) @ post))
         = bs"
proof -
  show "unpack_H (pre @ (le_bytes 2 (int (length bs)) @ bs) @ post) (length pre)
        = Inr (length bs)"
    using unpack_H_window[OF assms, of pre "bs @ post"] by simp
  have "drop (length pre + 2) (pre @ (le_bytes 2 (int (length bs)) @ bs) @ post) = bs @ post"
    by (simp add: le_bytes_length)
  then show "take (length bs) (drop (length pre + 2)
               (pre @ (le_bytes 2 (int (length bs)) @ bs) @ post)) = bs"
    by simp
qed

lemma prefixed_bytes:
  "list_all is_byte bs \<Longrightarrow> list_all is_byte (le_bytes 2 n @ bs)"
  using le_bytes_bytes[of 2 n] by simp

lemma scalar_string:
  assumes "length bs \<le> 65535" "list_all is_byte bs" "utf8_valid L bs"
  shows "scalar_ok L String dflt (PyStr bs) (le_bytes 2 (int (length bs)) @ bs)"
  unfolding scalar_ok_def
proof (intro conjI allI)
  show "serialize_scalar L String (PyStr bs) = Inr (le_bytes 2 (int (length bs)) @ bs)"
    by (simp add: serialize_scalar_def pack_H[OF assms(1)])
  show "list_all is_byte (le_bytes 2 (int (length bs)) @ bs)"
    by (rule prefixed_bytes[OF assms(2)])
  fix pre post
  show "deserialize_scalar L (pre @ (le_bytes 2 (int (length bs)) @ bs) @ post) String dflt
          (length pre)
        = Inr (decoded_scalar String (PyStr bs),
               length pre + length (le_bytes 2 (int (length bs)) @ bs))"
    unfolding deserialize_scalar_def
    by (simp only: prefixed_window[OF assms(1)] Let_def)
       (simp add: assms(3) decoded_scalar_def le_bytes_length)
qed

lemma scalar_binary:
  assumes "length bs \<le> 65535" "list_all is_byte bs"
    and "v = PyStr bs \<or> v = PyByteArray bs \<or> v = PyArray bs"
  shows "scalar_ok L Binary dflt v (le_bytes 2 (int (length bs)) @ bs)"
  unfolding scalar_ok_def
proof (intro conjI allI)
  show "serialize_scalar L Binary v = Inr (le_bytes 2 (int (length bs)) @ bs)"
    using assms(3) by (auto simp: serialize_scalar_def pack_H[OF assms(1)])
  show "list_all is_byte (le_bytes 2 (int (length bs)) @ bs)"
    by (rule prefixed_bytes[OF assms(2)])
  fix pre post
  have "decoded_scalar Binary v = PyArray bs"
    using assms(3) by (auto simp: decoded_scalar_def)
  then show "deserialize_scalar L (pre @ (le_bytes 2 (int (length bs)) @ bs) @ post) Binary dflt
          (length pre)
        = Inr (decoded_scalar Binary v,
               length pre + length (le_bytes 2 (int (length bs)) @ bs))"
    unfolding deserialize_scalar_def
    by (simp only: prefixed_window[OF assms(1)] Let_def)
       (simp add: le_bytes_length)
qed

lemma scalar_round_trip:
  assumes "conforms_scalar L t dflt v"
  shows "\<exists>bs. scalar_ok L t dflt v bs"
proof (cases t)
  case Null
  then show ?thesis using assms scalar_null by (auto simp: conforms_scalar_def)
next
  case Byte
  then show ?thesis using assms scalar_int[of t fmt_B]
    by (auto simp: conforms_scalar_def is_int_fmt_def split: pyval.splits)
next
  case Word
  then show ?thesis using assms scalar_int[of t fmt_H]
    by (auto simp: conforms_scalar_def is_int_fmt_def split: pyval.splits)
next
  case Dword
  then show ?thesis using assms scalar_int[of t fmt_I]
    by (auto simp: conforms_scalar_def is_int_fmt_def split: pyval.splits)
next
  case Qword
  then show ?thesis using assms scalar_int[of t fmt_Q]
    by (auto simp: conforms_scalar_def is_int_fmt_def split: pyval.splits)
next
  case SignedByte
  then show ?thesis using assms scalar_int[of t fmt_b]
    by (auto simp: conforms_scalar_def is_int_fmt_def split: pyval.splits)
next
  case SignedWord
  then show ?thesis using assms scalar_int[of t fmt_h]
    by (auto simp: conforms_scalar_def is_int_fmt_def split: pyval.splits)
next
  case SignedDword
  then show ?thesis using assms scalar_int[of t fmt_i]
    by (auto simp: conforms_scalar_def is_int_fmt_def split: pyval.splits)
next
  case SignedQword
  then show ?thesis using assms scalar_int[of t fmt_q]
    by (auto simp: conforms_scalar_def is_int_fmt_def split: pyval.splits)
next
  case Single
  then show ?thesis using assms scalar_float[of t L v] by (simp add: conforms_scalar_def)
next
  case Double
  then show ?thesis using assms scalar_float[of t L v] by (simp add: conforms_scalar_def)
next
  case Boolean
  then show ?thesis using assms scalar_bool
    by (auto simp: conforms_scalar_def split: pyval.splits)
next
  case Guid
  then show ?thesis using assms scalar_guid_uuid[of _ L dflt] scalar_guid_str[of _ L dflt]
    by (auto simp: conforms_scalar_def split: pyval.splits)
next
  case String
  then show ?thesis using assms scalar_string
    by (auto simp: conforms_scalar_def split: pyval.splits)
next
  case Binary
  then show ?thesis using assms scalar_binary[of _ v]
    by (auto simp: conforms_scalar_def split: pyval.splits)
next
  case Array
  then show ?thesis using assms by (auto simp: conforms_scalar_def split: pyval.splits)
qed

section \<open>The round trip of objects and arrays\<close>

lemma object_step:
  assumes "props_ok L cs fs bs"
  shows "object_ok L (PyObject cs) (PyObject fs) bs"
  using assms by (simp add: object_ok_def props_ok_def)

lemma props_nil: "props_ok L [] [] []"
  by (simp add: props_ok_def)

lemma elements_nil: "elements_ok L c [] []"
  by (simp add: elements_ok_def)

lemma elements_step:
  assumes "object_ok L c x bs1" "elements_ok L c xs bs2"
  shows "elements_ok L c (x # xs) (bs1 @ bs2)"
  unfolding elements_ok_def
proof (intro conjI allI)
  show "serialize_elements L (x # xs) = Inr (bs1 @ bs2)"
    using assms by (simp add: object_ok_def elements_ok_def)
  show "list_all is_byte (bs1 @ bs2)"
    using assms by (simp add: object_ok_def elements_ok_def)
  fix pre post
  have 1: "deserialize_object L (pre @ bs1 @ bs2 @ post) c (length pre)
           = Inr (decoded x, length pre + length bs1)"
    using assms(1) by (simp add: object_ok_def)
  have 2: "deserialize_elements L (pre @ bs1 @ bs2 @ post) c (length xs) (length pre + length bs1)
           = Inr (decoded_elements xs, length pre + length bs1 + length bs2)"
    using assms(2)[unfolded elements_ok_def, THEN conjunct2, THEN conjunct2, rule_format,
                   of "pre @ bs1" post]
    by simp
  show "deserialize_elements L (pre @ (bs1 @ bs2) @ post) c (length (x # xs)) (length pre)
        = Inr (decoded_elements (x # xs), length pre + length (bs1 @ bs2))"
    by (simp add: 1 2)
qed

lemma props_step_scalar:
  assumes "scalar_ok L t dflt v bs1" "t \<noteq> Array" "props_ok L cs fs bs2"
  shows "props_ok L ((binary_property t, dflt) # cs) ((binary_property t, v) # fs) (bs1 @ bs2)"
  unfolding props_ok_def
proof (intro conjI allI)
  show "serialize_struct L ((binary_property t, v) # fs) = Inr (bs1 @ bs2)"
    using assms by (simp add: scalar_ok_def props_ok_def)
  show "list_all is_byte (bs1 @ bs2)"
    using assms by (simp add: scalar_ok_def props_ok_def)
  fix pre post
  have 1: "deserialize_scalar L (pre @ bs1 @ bs2 @ post) t dflt (length pre)
           = Inr (decoded_scalar t v, length pre + length bs1)"
    using assms(1) by (simp add: scalar_ok_def)
  have 2: "deserialize_props L (pre @ bs1 @ bs2 @ post) cs (length pre + length bs1)
           = Inr (decoded_props fs, length pre + length bs1 + length bs2)"
    using assms(3)[unfolded props_ok_def, THEN conjunct2, THEN conjunct2, rule_format,
                   of "pre @ bs1" post]
    by simp
  show "deserialize_props L (pre @ (bs1 @ bs2) @ post) ((binary_property t, dflt) # cs) (length pre)
        = Inr (decoded_props ((binary_property t, v) # fs), length pre + length (bs1 @ bs2))"
    using assms(2) by (simp add: 1 2)
qed

lemma props_step_array:
  assumes "length xs \<le> 65535" "elements_ok L c xs bs1" "props_ok L cs fs bs2"
  shows "props_ok L ((array_binary_property c, dflt) # cs)
           ((array_binary_property c, PyList xs) # fs)
           ((le_bytes 2 (int (length xs)) @ bs1) @ bs2)"
  unfolding props_ok_def
proof (intro conjI allI)
  let ?len = "le_bytes 2 (int (length xs))"
  show "serialize_struct L ((array_binary_property c, PyList xs) # fs)
        = Inr ((?len @ bs1) @ bs2)"
    using assms by (simp add: elements_ok_def props_ok_def pack_H)
  show "list_all is_byte ((?len @ bs1) @ bs2)"
    using assms le_bytes_bytes[of 2 "int (length xs)"] by (simp add: elements_ok_def props_ok_def)
  fix pre post
  have 0: "unpack_H (pre @ ?len @ bs1 @ bs2 @ post) (length pre) = Inr (length xs)"
    by (rule unpack_H_window[OF assms(1)])
  note e = assms(2)[unfolded elements_ok_def, THEN conjunct2, THEN conjunct2, rule_format,
                    of "pre @ ?len" "bs2 @ post"]
  note r = assms(3)[unfolded props_ok_def, THEN conjunct2, THEN conjunct2, rule_format,
                    of "pre @ ?len @ bs1" post]
  show "deserialize_props L (pre @ ((?len @ bs1) @ bs2) @ post)
          ((array_binary_property c, dflt) # cs) (length pre)
        = Inr (decoded_props ((array_binary_property c, PyList xs) # fs),
               length pre + length ((?len @ bs1) @ bs2))"
    using 0 e r by (simp add: le_bytes_length)
qed


lemma conforms_scalar_not_array: "conforms_scalar L t dflt v \<Longrightarrow> t \<noteq> Array"
  by (auto simp: conforms_scalar_def split: pyval.splits)

lemma round_trip_all:
  shows "conforms L c v \<Longrightarrow> \<exists>bs. object_ok L c v bs"
    and "conforms_props L cs fs \<Longrightarrow> \<exists>bs. props_ok L cs fs bs"
    and "conforms_elements L elt xs \<Longrightarrow> \<exists>bs. elements_ok L elt xs bs"
proof (induction L c v and L cs fs and L elt xs
       rule: conforms_conforms_props_conforms_elements.induct)
  case (1 L cs fs)
  then obtain bs where "props_ok L cs fs bs" by auto
  then show ?case using object_step by blast
next
  case (3 L)
  show ?case using props_nil by blast
next
  case (4 L p dflt cs q v fs)
  from "4.prems" have pq: "q = p" and rest: "conforms_props L cs fs" by simp_all
  from "4.IH"(2)[OF rest] obtain bs2 where bs2: "props_ok L cs fs bs2" ..
  show ?case
  proof (cases p)
    case (binary_property t)
    with "4.prems" have c: "conforms_scalar L t dflt v" by simp
    from scalar_round_trip[OF c] obtain bs1 where "scalar_ok L t dflt v bs1" ..
    then have "props_ok L ((binary_property t, dflt) # cs) ((binary_property t, v) # fs)
                 (bs1 @ bs2)"
      using conforms_scalar_not_array[OF c] bs2 by (rule props_step_scalar)
    then show ?thesis using pq binary_property by blast
  next
    case (array_binary_property c)
    with "4.prems" obtain xs where v: "v = PyList xs" and l: "length xs \<le> 65535"
      and e: "conforms_elements L c xs"
      by (auto split: pyval.splits)
    from "4.IH"(1)[OF array_binary_property v e] obtain bs1 where "elements_ok L c xs bs1" ..
    with l have "props_ok L ((array_binary_property c, dflt) # cs)
                   ((array_binary_property c, PyList xs) # fs)
                   ((le_bytes 2 (int (length xs)) @ bs1) @ bs2)"
      using bs2 by (rule props_step_array)
    then show ?thesis using pq array_binary_property v by blast
  next
    case plain_attribute
    with "4.prems" show ?thesis by simp
  qed
next
  case (6 L element_type)
  show ?case using elements_nil by blast
next
  case (7 L element_type x xs)
  from "7.prems" have "conforms L element_type x" "conforms_elements L element_type xs"
    by simp_all
  with "7.IH" obtain bs1 bs2 where "object_ok L element_type x bs1"
    "elements_ok L element_type xs bs2" by blast
  then have "elements_ok L element_type (x # xs) (bs1 @ bs2)" by (rule elements_step)
  then show ?case by blast
qed simp_all

section \<open>The exceptions of serialize\<close>

text \<open>
  The module binds no name \<open>BinarySerializerError\<close>, so every
  \<open>raise BinarySerializationError(...)\<close> of \<open>serialize\<close> ends in \<open>NameError\<close>: for a value
  without a \<open>__binary_struct__\<close>, and for a Guid of three bytes.
\<close>

lemma name_unbound: "''BinarySerializerError'' \<notin> set module_names"
  by (simp add: module_names_def)

lemma raise_BinarySerializationError: "new_BinarySerializationError = NameError"
  by (simp add: new_BinarySerializationError_def BinaryFormatterError_init_def name_unbound)

lemma serialize_without_binary_struct: "serialize L (PyInt 42) = Inl NameError"
  by (simp add: raise_BinarySerializationError)

lemma serialize_short_guid:
  "serialize L (PyObject [(binary_property Guid, PyStr [1, 2, 3])]) = Inl NameError"
  by (simp add: raise_BinarySerializationError serialize_scalar_def)

lemma serialize_struct_append:
  "serialize_struct L (xs @ ys) =
     (case serialize_struct L xs of
        Inl e \<Rightarrow> Inl e
      | Inr a \<Rightarrow> (case serialize_struct L ys of Inl e \<Rightarrow> Inl e | Inr b \<Rightarrow> Inr (a @ b)))"
proof (induction xs)
  case Nil
  show ?case by (simp split: sum.splits)
next
  case (Cons x xs)
  obtain p v where x: "x = (p, v)" by (cases x)
  show ?case by (simp add: x Cons.IH split: sum.splits)
qed

lemma struct_pack_out_of_range:
  assumes "is_int_fmt fmt" "\<not> int_fits fmt n"
  shows "struct_pack L fmt (PyInt n) = Inl StructError"
  using assms by (simp add: struct_pack_def is_int_fmt_def pack_int_def)

section \<open>The test object\<close>






section \<open>Registration\<close>

lemma map_of_dict_set: "map_of (dict_set k v m) k' = (if k' = k then Some v else map_of m k')"
  by (induction m) auto

lemma keys_dict_set: "fst ` set (dict_set k v m) = insert k (fst ` set m)"
proof (induction m)
  case Nil
  show ?case by simp
next
  case (Cons a m)
  obtain k' v' where a: "a = (k', v')" by (cases a)
  show ?case using Cons.IH by (simp add: a insert_commute)
qed

text \<open>The type of a parameter read from the wire is an integer, 15 for the tag of Array.\<close>

lemma wire_type_is_int:
  "deserialize_scalar L (pre @ [0x0f] @ post) Byte dflt (length pre) = Inr (PyInt 15, length pre + 1)"
  by (simp add: deserialize_scalar_def struct_unpack_from_def unpack_int_def Let_def)

lemma BinaryFactory_init_raises: "BinaryFactory_init = Inl NameError"
  by (simp add: BinaryFactory_init_def module_names_def)

text \<open>With a constant of \<open>DataTypes\<close> for the type, the guard of \<open>generate\<close> works.\<close>

lemma generate_members_array:
  assumes "Constant Array \<in> param_type ` set params"
    and "\<forall>p \<in> set params. \<not> clobbers (param_name p)"
    and "map_of members ''__binary_struct__'' = Some (StructMember props)"
  shows "generate_members params members = Inl NotImplementedError"
  using assms
proof (induction params arbitrary: members props)
  case Nil
  then show ?case by simp
next
  case (Cons p ps)
  show ?case
  proof (cases "param_type p = Constant Array")
    case True
    then show ?thesis by (simp add: type_eq_def)
  next
    case False
    let ?f = "''_'' @ param_name p"
    let ?m = "dict_set (param_name p) (PropertyMember (param_type p) ?f)
                (dict_set ?f NoneMember members)"
    from Cons.prems(2) have n: "param_name p \<noteq> ''__binary_struct__''"
      "param_name p \<noteq> ''_binary_struct__''"
      by (simp_all add: clobbers_def)
    then have s: "map_of ?m ''__binary_struct__'' = Some (StructMember props)"
      using Cons.prems(3) by (auto simp: map_of_dict_set)
    have a: "Constant Array \<in> param_type ` set ps" using Cons.prems(1) False by auto
    have c: "\<forall>p \<in> set ps. \<not> clobbers (param_name p)" using Cons.prems(2) by simp
    have "generate_members ps
            (dict_set ''__binary_struct__''
               (StructMember (props @ [(param_type p, ?f)])) ?m) = Inl NotImplementedError"
      by (rule Cons.IH[OF a c]) (simp add: map_of_dict_set)
    then show ?thesis using False s by (simp add: Let_def type_eq_def)
  qed
qed

lemma generate_array:
  assumes "Constant Array \<in> param_type ` set (cmd_parameters command)"
    and "\<forall>p \<in> set (cmd_parameters command). \<not> clobbers (param_name p)"
  shows "generate T command = Inl NotImplementedError"
  using generate_members_array[OF assms, of "[(''__binary_struct__'', StructMember [])]" "[]"]
  by (simp add: generate_def)

lemma register_commands_append:
  "register_commands T (xs @ ys) cm =
     (case register_commands T xs cm of
        Inl e \<Rightarrow> Inl e
      | Inr cm' \<Rightarrow> register_commands T ys cm')"
  by (induction xs arbitrary: cm) (simp_all split: sum.splits)

lemma register_commands_keys:
  "register_commands T xs cm = Inr cm' \<Longrightarrow>
   fst ` set cm' = fst ` set cm \<union> cmd_name ` set xs"
proof (induction xs arbitrary: cm)
  case Nil
  then show ?case by simp
next
  case (Cons c cs)
  show ?case
  proof (cases "map_of cm (cmd_name c) = None")
    case True
    with Cons.prems obtain cls where g: "generate T c = Inr cls"
      and r: "register_commands T cs (dict_set (cmd_name c) cls cm) = Inr cm'"
      by (auto split: sum.splits)
    from Cons.IH[OF r] show ?thesis by (simp add: keys_dict_set)
  next
    case False
    then have k: "cmd_name c \<in> fst ` set cm" by (simp add: map_of_eq_None_iff)
    from False Cons.prems have "register_commands T cs cm = Inr cm'"
      by (auto split: if_splits)
    from Cons.IH[OF this] k show ?thesis by auto
  qed
qed

lemma constant_array_parameter_not_implemented:
  assumes i: "i < length (commands reg)"
    and before: "register_commands T (take i (commands reg)) (factory_command_map self) = Inr cm'"
    and fresh: "cmd_name (commands reg ! i) \<notin> fst ` set (factory_command_map self)"
    and first: "\<forall>j < i. cmd_name (commands reg ! j) \<noteq> cmd_name (commands reg ! i)"
    and arr: "Constant Array \<in> param_type ` set (cmd_parameters (commands reg ! i))"
    and names: "\<forall>p \<in> set (cmd_parameters (commands reg ! i)). \<not> clobbers (param_name p)"
  shows "handle_registration_request T self reg = Inl NotImplementedError"
proof -
  let ?cs = "commands reg"
  let ?c = "?cs ! i"
  have split: "?cs = take i ?cs @ ?c # drop (Suc i) ?cs"
    using i by (simp add: id_take_nth_drop)
  have "cmd_name ?c \<notin> cmd_name ` set (take i ?cs)"
  proof
    assume "cmd_name ?c \<in> cmd_name ` set (take i ?cs)"
    then obtain x where x: "x \<in> set (take i ?cs)" and e: "cmd_name ?c = cmd_name x" by auto
    from x obtain j where j: "j < length (take i ?cs)" and xj: "take i ?cs ! j = x"
      by (auto simp: in_set_conv_nth)
    from j have ji: "j < i" by simp
    with xj have "?cs ! j = x" by simp
    with first ji e show False by auto
  qed
  with fresh register_commands_keys[OF before]
  have "cmd_name ?c \<notin> fst ` set cm'" by simp
  then have none: "map_of cm' (cmd_name ?c) = None" by (simp add: map_of_eq_None_iff)
  have g: "generate T ?c = Inl NotImplementedError" by (rule generate_array[OF arr names])
  have "register_commands T (take i ?cs @ ?c # drop (Suc i) ?cs) (factory_command_map self)
        = Inl NotImplementedError"
    by (simp add: register_commands_append before none g)
  with split show ?thesis by (simp add: handle_registration_request_def)
qed

text \<open>A name that is in the \<open>command_map\<close> is passed over, whatever its parameters.\<close>

lemma registered_name_passed_over:
  assumes "map_of command_map (cmd_name command) \<noteq> None"
  shows "register_commands T (command # rest) command_map = register_commands T rest command_map"
  using assms by auto

text \<open>With the integer of the wire for the type, the guard never holds.\<close>

lemma generate_members_wire:
  assumes "list_all (\<lambda>p. is_wire (param_type p)) params"
  shows "generate_members params members \<noteq> Inl NotImplementedError"
  using assms
proof (induction params arbitrary: members)
  case Nil
  show ?case by simp
next
  case (Cons p ps)
  from Cons.prems obtain n where n: "param_type p = WireByte n"
    by (cases "param_type p") simp_all
  from Cons.prems have ps: "list_all (\<lambda>p. is_wire (param_type p)) ps" by simp
  show ?case
    using Cons.IH[OF ps]
    by (simp add: n type_eq_def Let_def split: option.splits member.splits)
qed

lemma generate_wire:
  assumes "list_all (\<lambda>p. is_wire (param_type p)) (cmd_parameters command)"
    and "\<forall>n m. T n m \<noteq> Some NotImplementedError"
  shows "generate T command \<noteq> Inl NotImplementedError"
  using generate_members_wire[OF assms(1), of "[(''__binary_struct__'', StructMember [])]"] assms(2)
  by (auto simp: generate_def split: sum.splits option.splits)

lemma register_commands_wire:
  assumes "list_all (\<lambda>c. list_all (\<lambda>p. is_wire (param_type p)) (cmd_parameters c)) cs"
    and "\<forall>n m. T n m \<noteq> Some NotImplementedError"
  shows "register_commands T cs cm \<noteq> Inl NotImplementedError"
  using assms(1)
proof (induction cs arbitrary: cm)
  case Nil
  show ?case by simp
next
  case (Cons c cs)
  from Cons.prems have c: "list_all (\<lambda>p. is_wire (param_type p)) (cmd_parameters c)"
    and cs: "list_all (\<lambda>c. list_all (\<lambda>p. is_wire (param_type p)) (cmd_parameters c)) cs"
    by simp_all
  show ?case
    using generate_wire[OF c assms(2)] Cons.IH[OF cs]
    by (auto split: sum.splits)
qed

section \<open>The claims\<close>

text \<open>
  C1. Claimed: after every \<open>append\<close> the buffer is empty, is the lone byte \<open>0xC5\<close>, or
  starts with \<open>0xC5 0xC3\<close>. The code breaks this: appending \<open>00 C5 C3\<close> to the empty
  buffer finds \<open>0xC5\<close> at \<open>idx = data_len - 2\<close>, which neither \<open>idx == data_len - 1\<close> nor
  \<open>idx < data_len - 2\<close> covers, so the junk byte stays in front of the signature.
\<close>

theorem append_breaks_invariant:
  "append_buf [] [0x00, 0xc5, 0xc3] = [0x00, 0xc5, 0xc3] \<and>
   \<not> buffer_invariant (append_buf [] [0x00, 0xc5, 0xc3])"
  by code_simp

text \<open>
  C2. Chunking independence: a concatenation of valid encoded frames, cut into chunks in
  any way and fed chunk by chunk (append, then pop every packet available), yields the
  same packets as the concatenation fed as one chunk: the frames that were encoded, in
  order, with nothing left in the buffer.
\<close>

theorem chunking_independence:
  assumes "list_all valid_frame ms"
    and "map to_binary ms = map Inr fs"
    and "concat cs = concat fs"
  shows "feed [] cs = feed [] [concat cs] \<and> feed [] cs = Inr (ms, [])"
proof -
  have "map to_binary ms = map (Inr \<circ> frame_bytes) ms"
    using assms(1)
    by (intro map_cong refl) (simp add: list_all_iff to_binary_bytes valid_frame_def frame_bytes_def)
  then have "map (Inr :: int list \<Rightarrow> error + int list) fs = map Inr (map frame_bytes ms)"
    using assms(2) by simp
  then have fs: "fs = map frame_bytes ms"
    by (rule map_injective) (rule inj_Inr)
  have a: "feed [] cs = Inr (ms, [])"
    by (rule feed_stream[OF assms(1)]) (simp_all add: assms(3) fs frame_bytes_length)
  have b: "feed [] [concat cs] = Inr (ms, [])"
    by (rule feed_stream[OF assms(1)]) (simp_all add: assms(3) fs frame_bytes_length)
  from a b show ?thesis by simp
qed

theorem chunking_independence_witness:
  "list_all valid_frame
     [\<lparr>signature = 0xc5c3, version = 2, flags = 3, intent = 4, data = [0x31, 0x32, 0x33]\<rparr>,
      \<lparr>signature = 0xc5c3, version = 1, flags = 0, intent = 0, data = []\<rparr>] \<and>
   map to_binary
     [\<lparr>signature = 0xc5c3, version = 2, flags = 3, intent = 4, data = [0x31, 0x32, 0x33]\<rparr>,
      \<lparr>signature = 0xc5c3, version = 1, flags = 0, intent = 0, data = []\<rparr>] =
   map Inr [[0xc5, 0xc3, 0x02, 0x03, 0x03, 0x00, 0x04, 0x00, 0x31, 0x32, 0x33, 0xd5],
            [0xc5, 0xc3, 0x01, 0x00, 0x00, 0x00, 0x00, 0x00, 0x76]] \<and>
   feed [] [[0xc5], [0xc3, 0x02, 0x03, 0x03, 0x00, 0x04, 0x00, 0x31], [],
            [0x32, 0x33, 0xd5, 0xc5, 0xc3, 0x01, 0x00], [0x00, 0x00, 0x00, 0x00, 0x76]] =
   Inr ([\<lparr>signature = 0xc5c3, version = 2, flags = 3, intent = 4, data = [0x31, 0x32, 0x33]\<rparr>,
         \<lparr>signature = 0xc5c3, version = 1, flags = 0, intent = 0, data = []\<rparr>], [])"
proof -
  let ?ms = "[\<lparr>signature = 0xc5c3, version = 2, flags = 3, intent = 4, data = [0x31, 0x32, 0x33]\<rparr>,
              \<lparr>signature = 0xc5c3, version = 1, flags = 0, intent = 0, data = []\<rparr>]"
  let ?fs = "[[0xc5, 0xc3, 0x02, 0x03, 0x03, 0x00, 0x04, 0x00, 0x31, 0x32, 0x33, 0xd5],
              [0xc5, 0xc3, 0x01, 0x00, 0x00, 0x00, 0x00, 0x00, 0x76]] :: int list list"
  let ?cs = "[[0xc5], [0xc3, 0x02, 0x03, 0x03, 0x00, 0x04, 0x00, 0x31], [],
              [0x32, 0x33, 0xd5, 0xc5, 0xc3, 0x01, 0x00], [0x00, 0x00, 0x00, 0x00, 0x76]]
             :: int list list"
  have v: "list_all valid_frame ?ms"
    by (simp add: valid_frame_def is_byte_def PACKET_SIGNATURE_def)
  have e: "map to_binary ?ms = map Inr ?fs" by code_simp
  have c: "concat ?cs = concat ?fs" by simp
  note r = chunking_independence[OF v e c]
  from v e r[THEN conjunct2] show ?thesis by (intro conjI)
qed

text \<open>
  C3. Round trip of a frame: a frame with the signature \<open>0xC5C3\<close>, version and flags in
  0..255, intent in 0..65535 and a payload of at most 65535 bytes is encoded by
  \<open>to_binary\<close>, and \<open>from_binary\<close> decodes the encoding to the same frame.
\<close>

theorem frame_round_trip:
  assumes "valid_frame m"
  shows "\<exists>bs. to_binary m = Inr bs \<and> from_binary bs = Inr m"
proof -
  have "list_all is_byte (data m)" using assms by (simp add: valid_frame_def)
  then have "to_binary m = Inr (header m @ data m @ [checksum m])"
    by (rule to_binary_bytes)
  moreover have "from_binary (header m @ data m @ [checksum m]) = Inr m"
    using from_binary_frame[OF assms, of "[]"] by simp
  ultimately show ?thesis by blast
qed

theorem frame_round_trip_witness:
  "valid_frame \<lparr>signature = 0xc5c3, version = 2, flags = 3, intent = 4, data = [0x31, 0x32, 0x33]\<rparr> \<and>
   to_binary \<lparr>signature = 0xc5c3, version = 2, flags = 3, intent = 4, data = [0x31, 0x32, 0x33]\<rparr>
     = Inr [0xc5, 0xc3, 0x02, 0x03, 0x03, 0x00, 0x04, 0x00, 0x31, 0x32, 0x33, 0xd5] \<and>
   from_binary [0xc5, 0xc3, 0x02, 0x03, 0x03, 0x00, 0x04, 0x00, 0x31, 0x32, 0x33, 0xd5]
     = Inr \<lparr>signature = 0xc5c3, version = 2, flags = 3, intent = 4, data = [0x31, 0x32, 0x33]\<rparr>"
proof -
  let ?m = "\<lparr>signature = 0xc5c3, version = 2, flags = 3, intent = 4, data = [0x31, 0x32, 0x33]\<rparr>"
  have v: "valid_frame ?m" by (simp add: valid_frame_def is_byte_def PACKET_SIGNATURE_def)
  have t: "to_binary ?m = Inr [0xc5, 0xc3, 0x02, 0x03, 0x03, 0x00, 0x04, 0x00, 0x31, 0x32, 0x33, 0xd5]"
    by code_simp
  from frame_round_trip[OF v] t v show ?thesis by simp
qed

text \<open>
  C4. Checksum law: the bytes \<open>to_binary\<close> returns for such a frame (header, payload and
  checksum byte) sum to \<open>0xFF\<close> modulo 256.
\<close>

theorem checksum_law:
  assumes "valid_frame m"
  shows "\<exists>bs. to_binary m = Inr bs \<and> sum_list bs mod 256 = 0xff"
proof -
  have "list_all is_byte (data m)" using assms by (simp add: valid_frame_def)
  then have "to_binary m = Inr (header m @ data m @ [checksum m])"
    by (rule to_binary_bytes)
  then show ?thesis using sum_frame[of m] by simp
qed

theorem checksum_law_witness:
  "valid_frame \<lparr>signature = 0xc5c3, version = 1, flags = 0, intent = 0, data = []\<rparr> \<and>
   to_binary \<lparr>signature = 0xc5c3, version = 1, flags = 0, intent = 0, data = []\<rparr>
     = Inr [0xc5, 0xc3, 0x01, 0x00, 0x00, 0x00, 0x00, 0x00, 0x76] \<and>
   sum_list [0xc5, 0xc3, 0x01, 0x00, 0x00, 0x00, 0x00, 0x00, 0x76 :: int] mod 256 = 0xff"
proof -
  let ?m = "\<lparr>signature = 0xc5c3, version = 1, flags = 0, intent = 0, data = []\<rparr>"
  have v: "valid_frame ?m" by (simp add: valid_frame_def is_byte_def PACKET_SIGNATURE_def)
  have t: "to_binary ?m = Inr [0xc5, 0xc3, 0x01, 0x00, 0x00, 0x00, 0x00, 0x00, 0x76]"
    by code_simp
  from checksum_law[OF v] t v show ?thesis by simp
qed




text \<open>
  C6. Claimed: on a complete frame with a wrong checksum \<open>pop_packet\<close> raises
  \<open>InvalidCRCError\<close> and drops the frame. The code raises inside \<open>from_binary\<close>, before
  the \<open>del\<close>: the buffer is left as it was, the bad frame still in front, as for the
  frame of the specification's scenario S3.
\<close>

theorem pop_packet_crc_keeps_frame:
  "has_packet [0xc5, 0xc3, 0x02, 0x03, 0x03, 0x00, 0x04, 0x00, 0x31, 0x32, 0x33, 0xba] \<and>
   pop_packet [0xc5, 0xc3, 0x02, 0x03, 0x03, 0x00, 0x04, 0x00, 0x31, 0x32, 0x33, 0xba] =
     (Inl InvalidCRCError,
      [0xc5, 0xc3, 0x02, 0x03, 0x03, 0x00, 0x04, 0x00, 0x31, 0x32, 0x33, 0xba])"
  by code_simp

text \<open>
  C6, amended: for a buffer of bytes that starts with the signature and holds a
  complete frame whose bytes do not sum to \<open>0xFF\<close> modulo 256, \<open>pop_packet\<close> raises
  \<open>InvalidCRCError\<close> and leaves the buffer unchanged.
\<close>

theorem pop_packet_invalid_crc:
  assumes "has_packet d"
    and "list_all is_byte d"
    and "d ! 0 = PACKET_SIGNATURE_HI" and "d ! 1 = PACKET_SIGNATURE_LO"
    and "sum_list (take (frame_length d) d) mod 256 \<noteq> 0xff"
  shows "pop_packet d = (Inl InvalidCRCError, d)"
proof -
  let ?n = "push_bit 8 (d ! 5 AND 0xff) OR (d ! 4 AND 0xff)"
  have fl: "frame_length d = 8 + nat ?n + 1"
    unfolding frame_length_def packet_consts payload_len_eq by simp
  note len = has_packet_lengths[OF assms(1)]
  note sgn = signature_bytes[OF assms(3,4)]
  have ba: "bytearray (take (nat ?n) (drop 8 d)) = Inr (take (nat ?n) (drop 8 d))"
    using bytes_take_drop[OF assms(2)] by (simp add: bytearray_def)
  have crc: "(0xff \<noteq> sum_list (take (8 + nat ?n + 1) d) AND 0xff) = True"
    using assms(5) unfolding fl and_255 by simp
  have "from_binary d = Inl InvalidCRCError"
    unfolding from_binary_def Let_def packet_consts
    by (simp only: len sgn ba crc if_False if_True sum.case simp_thms)
  then show ?thesis
    using assms(1) by (simp add: pop_packet_def)
qed

theorem pop_packet_invalid_crc_witness:
  "has_packet [0xc5, 0xc3, 0x02, 0x03, 0x03, 0x00, 0x04, 0x00, 0x31, 0x32, 0x33, 0xba] \<and>
   list_all is_byte [0xc5, 0xc3, 0x02, 0x03, 0x03, 0x00, 0x04, 0x00, 0x31, 0x32, 0x33, 0xba] \<and>
   sum_list (take (frame_length [0xc5, 0xc3, 0x02, 0x03, 0x03, 0x00, 0x04, 0x00, 0x31, 0x32, 0x33, 0xba])
     [0xc5, 0xc3, 0x02, 0x03, 0x03, 0x00, 0x04, 0x00, 0x31, 0x32, 0x33, 0xba :: int]) mod 256
     = 0xe4 \<and>
   pop_packet [0xc5, 0xc3, 0x02, 0x03, 0x03, 0x00, 0x04, 0x00, 0x31, 0x32, 0x33, 0xba] =
     (Inl InvalidCRCError,
      [0xc5, 0xc3, 0x02, 0x03, 0x03, 0x00, 0x04, 0x00, 0x31, 0x32, 0x33, 0xba])"
proof -
  let ?d = "[0xc5, 0xc3, 0x02, 0x03, 0x03, 0x00, 0x04, 0x00, 0x31, 0x32, 0x33, 0xba] :: int list"
  have h: "has_packet ?d" by code_simp
  have b: "list_all is_byte ?d" by code_simp
  have s: "sum_list (take (frame_length ?d) ?d) mod 256 = 0xe4" by code_simp
  have s': "sum_list (take (frame_length ?d) ?d) mod 256 \<noteq> 0xff" unfolding s by simp
  have "pop_packet ?d = (Inl InvalidCRCError, ?d)"
    by (rule pop_packet_invalid_crc[OF h b _ _ s']) (simp_all add: packet_consts)
  with h b s show ?thesis by (intro conjI)
qed

text \<open>
  C7. Claimed: a value that does not conform makes \<open>serialize\<close> raise
  \<open>BinarySerializationError\<close> and no other exception. \<open>serialize\<close> hands the value of
  a numeric property to \<open>struct.pack\<close> and catches nothing: a Byte property that holds
  300 does not conform, and \<open>serialize\<close> leaves with \<open>struct.error\<close>.
\<close>

theorem serialize_raises_struct_error:
  "\<forall>L. \<not> conforms L (PyObject [(binary_property Byte, PyInt 0)])
                     (PyObject [(binary_property Byte, PyInt 300)]) \<and>
       serialize L (PyObject [(binary_property Byte, PyInt 300)]) = Inl StructError \<and>
       StructError \<noteq> BinarySerializationError"
  by (simp add: conforms_scalar_def int_fits_def serialize_scalar_def struct_pack_def pack_int_def)

text \<open>
  C7, amended: an object whose properties conform up to an integer property that holds
  an integer outside the range of its type makes \<open>serialize\<close> raise \<open>struct.error\<close>,
  the exception of \<open>struct.pack\<close>.
\<close>

theorem serialize_integer_out_of_range:
  assumes "conforms_props L cs pre"
    and "basic_type_map t = Some (fmt, k)"
    and "is_int_fmt fmt"
    and "\<not> int_fits fmt n"
  shows "serialize L (PyObject (pre @ (binary_property t, PyInt n) # rest)) = Inl StructError"
proof -
  from round_trip_all(2)[OF assms(1)] obtain bs where "props_ok L cs pre bs" ..
  then have p: "serialize_struct L pre = Inr bs" by (simp add: props_ok_def)
  have t: "t \<noteq> Null" "t \<noteq> Array" using assms(2) by auto
  have "serialize_scalar L t (PyInt n) = Inl StructError"
    using assms(2) t by (simp add: serialize_scalar_def struct_pack_out_of_range[OF assms(3,4)])
  then have "serialize_struct L ((binary_property t, PyInt n) # rest) = Inl StructError"
    using t by simp
  then show ?thesis by (simp add: serialize_struct_append p)
qed

theorem serialize_integer_out_of_range_witness:
  "\<forall>L. serialize L (PyObject [(binary_property Word, PyInt 0xabcd),
                               (binary_property Byte, PyInt 300),
                               (binary_property Boolean, PyBool True)]) = Inl StructError"
proof
  fix L
  have 1: "conforms_props L [(binary_property Word, PyInt 0)] [(binary_property Word, PyInt 0xabcd)]"
    by (simp add: conforms_scalar_def int_fits_def)
  have 2: "basic_type_map Byte = Some (fmt_B, 1)" by simp
  have 3: "is_int_fmt fmt_B" by (simp add: is_int_fmt_def)
  have 4: "\<not> int_fits fmt_B 300" by (simp add: int_fits_def)
  from serialize_integer_out_of_range[OF 1 2 3 4, of "[(binary_property Boolean, PyBool True)]"]
  show "serialize L (PyObject [(binary_property Word, PyInt 0xabcd),
                               (binary_property Byte, PyInt 300),
                               (binary_property Boolean, PyBool True)]) = Inl StructError"
    by simp
qed

text \<open>
  C8. Claimed: a registration with a command that has a parameter of type Array fails
  at registration. The guard of \<open>generate\<close> is \<open>paramtype == DataTypes.Array\<close>, and in a
  registration that came from a packet the type of a parameter is the integer read
  from the wire, which is never equal to the constant: whatever the integers, 15
  among them, and whatever the factory, \<open>handle_registration_request\<close> does not raise
  \<open>NotImplementedError\<close> (the builtin \<open>type\<close> does not raise it either).
\<close>

theorem wire_registration_never_refused:
  assumes "wire_decoded reg"
    and "\<forall>n m. T n m \<noteq> Some NotImplementedError"
  shows "handle_registration_request T self reg \<noteq> Inl NotImplementedError"
  using register_commands_wire[OF assms(1)[unfolded wire_decoded_def] assms(2),
          of "factory_command_map self"]
  by (auto simp: handle_registration_request_def Deferred_callback_def
           split: sum.splits option.splits)

theorem wire_registration_never_refused_witness:
  "wire_decoded
     (DeviceRegistration [Command 101 ''Fill'' [Parameters (WireByte 2) ''addr'',
                                                 Parameters (WireByte 15) ''xs'']]) \<and>
   (\<forall>self. handle_registration_request (\<lambda>n m. None) self
      (DeviceRegistration [Command 101 ''Fill'' [Parameters (WireByte 2) ''addr'',
                                                  Parameters (WireByte 15) ''xs'']])
      \<noteq> Inl NotImplementedError) \<and>
   handle_registration_request (\<lambda>n m. None) (BinaryFactory [] [] (Some (Deferred False)))
      (DeviceRegistration [Command 101 ''Fill'' [Parameters (WireByte 2) ''addr'',
                                                  Parameters (WireByte 15) ''xs'']])
   = Inr (BinaryFactory []
            [(''Fill'', AutoClass ''FillClass''
                [(''__binary_struct__'',
                    StructMember [(WireByte 2, ''_addr''), (WireByte 15, ''_xs'')]),
                 (''_addr'', NoneMember),
                 (''addr'', PropertyMember (WireByte 2) ''_addr''),
                 (''_xs'', NoneMember),
                 (''xs'', PropertyMember (WireByte 15) ''_xs'')])]
            (Some (Deferred True)))"
proof (intro conjI allI)
  let ?reg = "DeviceRegistration [Command 101 ''Fill'' [Parameters (WireByte 2) ''addr'',
                                                         Parameters (WireByte 15) ''xs'']]"
  show w: "wire_decoded ?reg" by (simp add: wire_decoded_def)
  have t: "\<forall>n m. (\<lambda>n m. None :: error option) (n :: string) (m :: (string \<times> member) list)
                  \<noteq> Some NotImplementedError"
    by simp
  fix self
  show "handle_registration_request (\<lambda>n m. None) self ?reg \<noteq> Inl NotImplementedError"
    by (rule wire_registration_never_refused[OF w t])
next
  show "handle_registration_request (\<lambda>n m. None) (BinaryFactory [] [] (Some (Deferred False)))
      (DeviceRegistration [Command 101 ''Fill'' [Parameters (WireByte 2) ''addr'',
                                                  Parameters (WireByte 15) ''xs'']])
   = Inr (BinaryFactory []
            [(''Fill'', AutoClass ''FillClass''
                [(''__binary_struct__'',
                    StructMember [(WireByte 2, ''_addr''), (WireByte 15, ''_xs'')]),
                 (''_addr'', NoneMember),
                 (''addr'', PropertyMember (WireByte 2) ''_addr''),
                 (''_xs'', NoneMember),
                 (''xs'', PropertyMember (WireByte 15) ''_xs'')])]
            (Some (Deferred True)))"
    by (simp add: handle_registration_request_def generate_def type_eq_def Deferred_callback_def
          Let_def)
qed

text \<open>
  C9. Claimed: a ceiling on the buffer's size, beyond which \<open>append\<close> clears the buffer
  and raises \<open>BufferOverflow\<close>. The source has no such exception and \<open>append\<close> has no
  size check: whatever the ceiling, a buffer longer than it survives an \<open>append\<close>.
\<close>

theorem no_buffer_ceiling:
  "\<not> (\<exists>N. \<forall>d v. N < length (d @ v) \<longrightarrow> append_buf d v = [])"
proof
  assume "\<exists>N. \<forall>d v. N < length (d @ v) \<longrightarrow> append_buf d v = []"
  then obtain N where N: "\<forall>d v. N < length (d @ v) \<longrightarrow> append_buf d v = []" ..
  let ?v = "PACKET_SIGNATURE_HI # PACKET_SIGNATURE_LO # replicate N 0"
  have "append_buf [] ?v = ?v"
    unfolding append_buf_def by (subst skip_to_next_packet.simps) (simp add: Let_def)
  moreover have "append_buf [] ?v = []" using N[rule_format, of "[]" ?v] by simp
  ultimately show False by simp
qed

text \<open>
  C9, amended: \<open>append\<close> raises nothing, and onto a buffer that starts with the
  signature it keeps every byte it is given, whatever the length.
\<close>

theorem append_keeps_every_byte:
  "append_buf (PACKET_SIGNATURE_HI # PACKET_SIGNATURE_LO # d) v =
   PACKET_SIGNATURE_HI # PACKET_SIGNATURE_LO # d @ v"
  unfolding append_buf_def by (subst skip_to_next_packet.simps) (simp add: Let_def)

theorem append_keeps_every_byte_witness:
  "append_buf [0xc5, 0xc3, 7] [8, 9] = [0xc5, 0xc3, 7, 8, 9]"
  using append_keeps_every_byte[of "[7]" "[8, 9]"] by (simp add: packet_consts)

text \<open>
  C10. \<open>_skip_to_next_packet\<close> terminates on every buffer: every buffer is in the
  domain of the function (\<open>skip_to_next_packet_dom\<close>), every call it makes to itself
  (\<open>skip_to_next_packet_rel d' d\<close>: the call on \<open>d\<close> calls itself on \<open>d'\<close>) is on a strictly
  shorter buffer, and the buffer it leaves is no longer than the one it was given.
\<close>

theorem skip_to_next_packet_terminates:
  "skip_to_next_packet_dom d \<and>
   (\<forall>d'. skip_to_next_packet_rel d' d \<longrightarrow> length d' < length d) \<and>
   length (skip_to_next_packet d) \<le> length d"
proof (intro conjI allI impI)
  show "skip_to_next_packet_dom d"
  proof (induction d rule: length_induct)
    case (1 xs)
    show ?case
    proof (rule accpI)
      fix ys assume "skip_to_next_packet_rel ys xs"
      then have "length ys < length xs" by (rule skip_rel_shorter)
      with 1 show "skip_to_next_packet_dom ys" by blast
    qed
  qed
next
  fix d' assume "skip_to_next_packet_rel d' d"
  then show "length d' < length d" by (rule skip_rel_shorter)
next
  show "length (skip_to_next_packet d) \<le> length d"
    by (rule skip_to_next_packet_length)
qed

theorem skip_to_next_packet_terminates_witness:
  "skip_to_next_packet_dom [0xc5, 0, 0] \<and>
   skip_to_next_packet_rel [0, 0] [0xc5, 0, 0] \<and>
   length [0, 0 :: int] < length [0xc5, 0, 0 :: int] \<and>
   skip_to_next_packet [0xc5, 0, 0] = []"
proof -
  have r: "skip_to_next_packet_rel (drop (0 + 1) [0xc5, 0, 0]) [0xc5, 0, 0]"
    by (rule skip_to_next_packet_rel.intros[where x = 3]) (simp_all add: packet_consts)
  have e: "skip_to_next_packet [0xc5, 0, 0] = []" by code_simp
  show ?thesis
    using skip_to_next_packet_terminates[of "[0xc5, 0, 0]"] r e by simp
qed

end
